theory Spec2Isabelle
  imports Complex_Main "HOL-Library.AList"
begin

section \<open>The SyncFS class of packages/sync-fs/lib/index.ts\<close>

text \<open>
  The class is embedded as a record of its fields, and each method as a function from
  the object to a result and the updated object. Exceptions are values: a method that
  throws returns \<open>Inl\<close> of the value thrown. JavaScript numbers are real numbers
  here (IEEE rounding is left out) and strings are byte lists.

  What the class does to the outside (the project API, the tar primitives, the file
  system, external commands, timers) is recorded, in order, in the ghost field
  \<open>trace\<close>. What the outside answers is given by a \<open>world\<close>: one outcome for
  every external call. Debug logging (\<open>log\<close>) is not recorded.
\<close>

subsection \<open>Data\<close>

datatype State = Init | Ready | Sync | Closed

text \<open>The values that are no objects; the option \<open>compression\<close> can hold any of them
  at run time (its declared type is the literal \<open>"lz4"\<close>, which JavaScript does not
  enforce), and so can a value that is thrown.\<close>

datatype jsval = JUndefined | JNull | JBool bool | JNum int | JStr string

text \<open>What a \<open>catch\<close> can receive: an \<open>Error\<close> object with its message (a string), or
  a value that is no object, with which a promise of the tar primitives, of the API or of
  a helper may reject as well. Such a value has no property \<open>message\<close>, and reading a
  property of \<open>undefined\<close> or \<open>null\<close> throws a \<open>TypeError\<close>. An object that is
  thrown and has no string message is not modelled apart: wherever this class reads a
  caught value it fares as a thrown string does, but for the entry \<open>error\<close> of the reply
  to a copy request. A \<open>TypeError\<close> of the engine is an \<open>Error\<close> whose message the
  world gives.\<close>

datatype error = Error string | Thrown jsval

datatype tar_codec = Raw | Lz4

record tar_args =
  createArgs :: "string list"
  extractArgs :: "string list"
  HOME :: "string option"

text \<open>The detailed status \<open>{state, extra?, timeout?, progress?}\<close>, written by
  \<open>reportState\<close> and read back by \<open>getDetailedState\<close>.\<close>

record DetailedState =
  r_state :: string
  r_extra :: "string option"
  r_timeout :: "real option"
  r_progress :: "real option"

text \<open>The answer of \<open>api.syncFS\<close>; each of the three entries may be undefined.\<close>

record SyncFSResponse =
  removeFromCompute :: "string list option"
  copyFromCompute :: "string list option"
  copyFromProjectTar :: "string option"

text \<open>A FilesystemState is an object from paths to times: an association list in the
  order of enumeration, read with \<open>map_of\<close> and written with \<open>AList.update\<close>.\<close>

type_synonym FilesystemState = "(string \<times> real) list"

datatype content = Text string | CompressedJSON FilesystemState

text \<open>The replies \<open>{id, event: "success"}\<close> and \<open>{id, event: "error", error}\<close>; the
  entry \<open>error\<close> is the message of the error caught, undefined when it has none.\<close>

datatype ack = Success string | Failure string "string option"

datatype event =
    Execa string "string list"
  | Mkdirp string
  | Mkdir string
  | Rm string
  | Websocket string
  | WebsocketOn
  | WebsocketRemoveListener
  | WebsocketWrite ack
  | ProjectApi string
  | ComputeServerSyncRegister nat
  | SetDetailedState nat DetailedState
  | GetDetailedState nat
  | MtimeDirTree string "string list"
  | Stat string
  | WriteFile string content
  | SyncFSRequest string "string list" nat
  | Remove "string list" string
  | OpenW string
  | FileWrite string
  | FileClose
  | TarSend tar_args
  | TarGet tar_args
  | Rename string string
  | CopyFile string string
  | SetTimeout real
  | ClearTimeout

record SyncFS =
  state :: State
  lower :: string
  upper :: string
  mount :: string
  data :: string
  project_id :: string
  compute_server_id :: nat
  syncInterval :: real
  syncIntervalMin :: real
  syncIntervalMax :: real
  exclude :: "string list"
  readTrackingFile :: "string option"
  scratch :: string
  error_txt :: string
  tar :: tar_codec
  numFails :: nat
  timeout :: "real option"
  websocket :: bool
  trace :: "event list"

text \<open>The outcome of every external call: \<open>None\<close> or \<open>Inr\<close> when it returns,
  \<open>Some e\<close> or \<open>Inl e\<close> when it throws \<open>e\<close>. The functions imported from
  \<open>fs/promises\<close> (\<open>mkdir\<close>, \<open>rm\<close>, \<open>stat\<close>, \<open>writeFile\<close>, \<open>open\<close> and the file
  handle's \<open>write\<close> and \<open>close\<close>, \<open>rename\<close>, \<open>copyFile\<close>) reject with a system error,
  an \<open>Error\<close> object: their outcome holds its message. \<open>w_typeError n\<close> is the
  message of the \<open>TypeError\<close> that the engine throws on source line \<open>n\<close>, which the
  source does not fix. \<open>w_elapsed\<close> is the time in milliseconds that a tick of the loop
  took, and \<open>w_closeAt n\<close> says that the owner calls \<open>close()\<close> while the external call
  awaited on source line \<open>n\<close> is pending.\<close>

record world =
  w_execa :: "string \<Rightarrow> string list \<Rightarrow> error option"
  w_mkdirp :: "string \<Rightarrow> error option"
  w_mkdir :: "string \<Rightarrow> string option"
  w_rm :: "string \<Rightarrow> string option"
  w_websocket :: "error option"
  w_api :: "error option"
  w_register :: "error option"
  w_getDetailedState :: "error + DetailedState option"
  w_mtimeDirTree :: "string \<Rightarrow> string list \<Rightarrow> error + FilesystemState"
  w_isDirectory :: "string \<Rightarrow> string + bool"
  w_writeFile :: "string \<Rightarrow> string option"
  w_syncFS :: "error + SyncFSResponse"
  w_remove :: "string list \<Rightarrow> string \<Rightarrow> error option"
  w_open :: "string \<Rightarrow> string option"
  w_fileWrite :: "string option"
  w_fileClose :: "string option"
  w_tar_send :: "tar_args \<Rightarrow> error option"
  w_tar_get :: "tar_args \<Rightarrow> error option"
  w_rename :: "string \<Rightarrow> string \<Rightarrow> string option"
  w_copyFile :: "string \<Rightarrow> string \<Rightarrow> string option"
  w_typeError :: "nat \<Rightarrow> string"
  w_elapsed :: real
  w_closeAt :: "nat \<Rightarrow> bool"

subsection \<open>Constants\<close>

definition UNIONFS :: string where
  "UNIONFS = ''.unionfs-fuse''"

definition DEFAULT_SYNC_INTERVAL_MIN_S :: real where
  "DEFAULT_SYNC_INTERVAL_MIN_S = 10"

definition DEFAULT_SYNC_INTERVAL_MAX_S :: real where
  "DEFAULT_SYNC_INTERVAL_MAX_S = 30"

definition MAX_FAILURES_IN_A_ROW :: nat where
  "MAX_FAILURES_IN_A_ROW = 3"

subsection \<open>Strings, paths and JavaScript values\<close>

definition startsWith :: "string \<Rightarrow> string \<Rightarrow> bool" where
  "startsWith p pre = (take (length pre) p = pre)"

definition endsWith :: "string \<Rightarrow> string \<Rightarrow> bool" where
  "endsWith p suf = (length suf \<le> length p \<and> drop (length p - length suf) p = suf)"

fun includes_str :: "string \<Rightarrow> string \<Rightarrow> bool" where
  "includes_str [] sub = (sub = [])"
| "includes_str (c # cs) sub = (take (length sub) (c # cs) = sub \<or> includes_str cs sub)"

text \<open>\<open>v.join(sep)\<close> of an array of strings.\<close>

fun join_with :: "string \<Rightarrow> string list \<Rightarrow> string" where
  "join_with sep [] = []"
| "join_with sep [x] = x"
| "join_with sep (x # y # ys) = x @ sep @ join_with sep (y # ys)"

text \<open>\<open>join\<close>, \<open>dirname\<close> and \<open>basename\<close> of Node's path module, for segments that
  need no normalisation (no empty segment, no \<open>..\<close>, no trailing slash).\<close>

definition join :: "string list \<Rightarrow> string" where
  "join segs = join_with ''/'' segs"

definition basename :: "string \<Rightarrow> string" where
  "basename p = rev (takeWhile (\<lambda>c. c \<noteq> CHR ''/'') (rev p))"

definition dirname :: "string \<Rightarrow> string" where
  "dirname p =
     (if CHR ''/'' \<notin> set p then ''.''
      else let d = rev (drop 1 (dropWhile (\<lambda>c. c \<noteq> CHR ''/'') (rev p)))
           in if d = [] then ''/'' else d)"

text \<open>The decimal rendering of a number in a template string.\<close>

fun show_nat :: "nat \<Rightarrow> string" where
  "show_nat n =
     (if n < 10 then [''0123456789'' ! n]
      else show_nat (n div 10) @ [''0123456789'' ! (n mod 10)])"

declare show_nat.simps [simp del]

definition show_int :: "int \<Rightarrow> string" where
  "show_int i = (if i < 0 then ''-'' @ show_nat (nat (- i)) else show_nat (nat i))"

text \<open>Truthiness and the string conversion of a template string.\<close>

fun truthy :: "jsval \<Rightarrow> bool" where
  "truthy JUndefined = False"
| "truthy JNull = False"
| "truthy (JBool b) = b"
| "truthy (JNum n) = (n \<noteq> 0)"
| "truthy (JStr s) = (s \<noteq> [])"

fun to_string :: "jsval \<Rightarrow> string" where
  "to_string JUndefined = ''undefined''"
| "to_string JNull = ''null''"
| "to_string (JBool b) = (if b then ''true'' else ''false'')"
| "to_string (JNum n) = show_int n"
| "to_string (JStr s) = s"

text \<open>A string that may be undefined is truthy when it is defined and not empty.\<close>

fun truthy_str :: "string option \<Rightarrow> bool" where
  "truthy_str None = False"
| "truthy_str (Some s) = (s \<noteq> [])"

fun state_name :: "State \<Rightarrow> string" where
  "state_name Init = ''init''"
| "state_name Ready = ''ready''"
| "state_name Sync = ''sync''"
| "state_name Closed = ''closed''"

subsection \<open>Methods as state transformers that may throw\<close>

type_synonym 'a prog = "SyncFS \<Rightarrow> (error + 'a) \<times> SyncFS"

definition ret :: "'a \<Rightarrow> 'a prog" where
  "ret x = (\<lambda>s. (Inr x, s))"

definition raise :: "error \<Rightarrow> 'a prog" where
  "raise e = (\<lambda>s. (Inl e, s))"

definition seq :: "'a prog \<Rightarrow> ('a \<Rightarrow> 'b prog) \<Rightarrow> 'b prog" where
  "seq m f = (\<lambda>s. case m s of (Inl e, s') \<Rightarrow> (Inl e, s') | (Inr x, s') \<Rightarrow> f x s')"

definition try_catch :: "'a prog \<Rightarrow> (error \<Rightarrow> 'a prog) \<Rightarrow> 'a prog" where
  "try_catch m h = (\<lambda>s. case m s of (Inl e, s') \<Rightarrow> h e s' | (Inr x, s') \<Rightarrow> (Inr x, s'))"

text \<open>\<open>try { m } finally { fin }\<close>: the block \<open>fin\<close> runs however \<open>m\<close> ends, and the
  statement ends as \<open>m\<close> did unless \<open>fin\<close> throws.\<close>

definition try_finally :: "'a prog \<Rightarrow> unit prog \<Rightarrow> 'a prog" where
  "try_finally m fin =
     (\<lambda>s. case m s of (r, s') \<Rightarrow>
        (case fin s' of (Inl e, s'') \<Rightarrow> (Inl e, s'') | (Inr _, s'') \<Rightarrow> (r, s'')))"

text \<open>\<open>with_this\<close> reads the fields of the object as they are when the statement
  runs.\<close>

definition with_this :: "(SyncFS \<Rightarrow> 'a prog) \<Rightarrow> 'a prog" where
  "with_this F = (\<lambda>s. F s s)"

definition modify :: "(SyncFS \<Rightarrow> SyncFS) \<Rightarrow> unit prog" where
  "modify g = (\<lambda>s. (Inr (), g s))"

definition emit :: "event \<Rightarrow> unit prog" where
  "emit ev = modify (trace_update (\<lambda>t. t @ [ev]))"

fun outcome :: "error option \<Rightarrow> error + unit" where
  "outcome None = Inr ()"
| "outcome (Some e) = Inl e"

text \<open>The outcome of a function of \<open>fs/promises\<close>.\<close>

fun fs_outcome :: "string option \<Rightarrow> error + unit" where
  "fs_outcome None = Inr ()"
| "fs_outcome (Some m) = Inl (Error m)"

fun fs_result :: "string + 'a \<Rightarrow> error + 'a" where
  "fs_result (Inl m) = Inl (Error m)"
| "fs_result (Inr x) = Inr x"

text \<open>\<open>err.message\<close> on source line \<open>line\<close>, for a value \<open>err\<close> that was caught.\<close>

fun read_message :: "world \<Rightarrow> nat \<Rightarrow> error \<Rightarrow> string option prog" where
  "read_message w line (Error m) = ret (Some m)"
| "read_message w line (Thrown JUndefined) = raise (Error (w_typeError w line))"
| "read_message w line (Thrown JNull) = raise (Error (w_typeError w line))"
| "read_message w line (Thrown v) = ret None"

text \<open>\<open>err.message.slice(0, n)\<close> on source line \<open>line\<close>: \<open>undefined\<close> has no method
  \<open>slice\<close>.\<close>

definition slice_message :: "world \<Rightarrow> nat \<Rightarrow> error \<Rightarrow> nat \<Rightarrow> string prog" where
  "slice_message w line err n =
     seq (read_message w line err)
       (\<lambda>m. case m of
              None \<Rightarrow> raise (Error (w_typeError w line))
            | Some m \<Rightarrow> ret (take n m))"

text \<open>An awaited external call during which nothing else runs: the call is recorded
  and its outcome returned.\<close>

definition call0 :: "event \<Rightarrow> error + 'a \<Rightarrow> 'a prog" where
  "call0 ev out = (\<lambda>s. (out, trace_update (\<lambda>t. t @ [ev]) s))"

subsection \<open>Teardown\<close>

definition shouldMountExclude :: "string \<Rightarrow> bool" where
  "shouldMountExclude path =
     (path \<noteq> [] \<and> \<not> startsWith path ''.'' \<and> \<not> startsWith path ''/'' \<and> path \<noteq> ''~''
      \<and> \<not> includes_str path ''/'')"

fun unmountLoop :: "world \<Rightarrow> string list \<Rightarrow> unit prog" where
  "unmountLoop w [] = ret ()"
| "unmountLoop w (path # rest) =
     seq (if shouldMountExclude path
          then try_catch
                 (with_this (\<lambda>this.
                    call0 (Execa ''sudo'' [''umount'', join [mount this, path]])
                      (outcome (w_execa w ''sudo'' [''umount'', join [mount this, path]]))))
                 (\<lambda>err. ret ())
          else ret ())
         (\<lambda>_. unmountLoop w rest)"

definition unmountExcludes :: "world \<Rightarrow> unit prog" where
  "unmountExcludes w = with_this (\<lambda>this. unmountLoop w (exclude this))"

text \<open>\<open>close\<close> (lines 160-183). A second \<open>close()\<close> that arrives while the first one
  awaits returns on line 163, so the external calls of \<open>close\<close> are \<open>call0\<close>.\<close>

definition close :: "world \<Rightarrow> unit prog" where
  "close w =
     with_this (\<lambda>this.
       if state this = Closed then ret ()
       else seq (modify (state_update (\<lambda>_. Closed)))
         (\<lambda>_. seq (with_this (\<lambda>this.
                      if timeout this \<noteq> None
                      then seq (emit ClearTimeout) (\<lambda>_. modify (timeout_update (\<lambda>_. None)))
                      else ret ()))
         (\<lambda>_. seq (try_catch
                     (with_this (\<lambda>this.
                        call0 (Execa ''fusermount'' [''-uz'', mount this])
                          (outcome (w_execa w ''fusermount'' [''-uz'', mount this]))))
                     (\<lambda>err. ret ()))
         (\<lambda>_. seq (try_catch (unmountExcludes w) (\<lambda>err. ret ()))
         (\<lambda>_. with_this (\<lambda>this.
                 if websocket this then emit WebsocketRemoveListener else ret ()))))))"

text \<open>An awaited external call on source line \<open>line\<close>: the call is recorded, then
  \<open>close()\<close> runs if the owner calls it while the call is pending, then the outcome
  arrives.\<close>

definition interleave_close :: "world \<Rightarrow> nat \<Rightarrow> SyncFS \<Rightarrow> SyncFS" where
  "interleave_close w line s = (if w_closeAt w line then snd (close w s) else s)"

definition call :: "world \<Rightarrow> nat \<Rightarrow> event \<Rightarrow> error + 'a \<Rightarrow> 'a prog" where
  "call w line ev out = (\<lambda>s. (out, interleave_close w line (trace_update (\<lambda>t. t @ [ev]) s)))"

subsection \<open>Construction\<close>

record Options =
  opt_lower :: string
  opt_upper :: string
  opt_mount :: string
  opt_project_id :: string
  opt_compute_server_id :: nat
  opt_syncIntervalMin :: "real option"
  opt_syncIntervalMax :: "real option"
  opt_exclude :: "string list option"
  opt_readTrackingFile :: "string option"
  opt_compression :: jsval
  opt_data :: "string option"

definition alter :: "string list \<Rightarrow> string list" where
  "alter v = [''-I'', ''lz4''] @ v"

text \<open>The field \<open>tar\<close> holds either the primitives of the options as they are
  (\<open>Raw\<close>) or the pair of closures of lines 132-143 (\<open>Lz4\<close>); \<open>this_tar\<close> gives the
  arguments that reach the primitive.\<close>

fun this_tar :: "tar_codec \<Rightarrow> tar_args \<Rightarrow> tar_args" where
  "this_tar Raw a = a"
| "this_tar Lz4 a = a\<lparr>createArgs := alter (createArgs a), extractArgs := alter (extractArgs a)\<rparr>"

text \<open>The constructor (lines 92-147). The field \<open>state\<close> is \<open>init\<close> only while
  the constructor runs.\<close>

definition new_SyncFS :: "Options \<Rightarrow> error + SyncFS" where
  "new_SyncFS opts =
     (let syncIntervalMin0 = (case opt_syncIntervalMin opts of None \<Rightarrow> DEFAULT_SYNC_INTERVAL_MIN_S | Some v \<Rightarrow> v);
          syncIntervalMax0 = (case opt_syncIntervalMax opts of None \<Rightarrow> DEFAULT_SYNC_INTERVAL_MAX_S | Some v \<Rightarrow> v);
          exclude0 = (case opt_exclude opts of None \<Rightarrow> [] | Some v \<Rightarrow> v);
          compression = (case opt_compression opts of JUndefined \<Rightarrow> JStr ''lz4'' | c \<Rightarrow> c);
          data0 = (case opt_data opts of None \<Rightarrow> ''/data'' | Some v \<Rightarrow> v);
          scratch0 = join [opt_lower opts, ''.compute-servers'', show_nat (opt_compute_server_id opts)];
          this = \<lparr> state = Ready, lower = opt_lower opts, upper = opt_upper opts,
                   mount = opt_mount opts, data = data0, project_id = opt_project_id opts,
                   compute_server_id = opt_compute_server_id opts,
                   syncInterval = syncIntervalMin0, syncIntervalMin = syncIntervalMin0,
                   syncIntervalMax = syncIntervalMax0, exclude = exclude0,
                   readTrackingFile = opt_readTrackingFile opts, scratch = scratch0,
                   error_txt = join [scratch0, ''error.txt''], tar = Raw, numFails = 0,
                   timeout = None, websocket = False, trace = [] \<rparr>
      in if \<not> truthy compression then Inr this
         else if compression = JStr ''lz4'' then Inr (this\<lparr>tar := Lz4\<rparr>)
         else Inl (Error (''invalid compression: '' @ [CHR 0x27] @ to_string compression @ [CHR 0x27])))"

subsection \<open>The transfer primitives\<close>

definition tar_send :: "world \<Rightarrow> nat \<Rightarrow> tar_args \<Rightarrow> unit prog" where
  "tar_send w line a =
     with_this (\<lambda>this.
       call w line (TarSend (this_tar (tar this) a)) (outcome (w_tar_send w (this_tar (tar this) a))))"

definition tar_get :: "world \<Rightarrow> nat \<Rightarrow> tar_args \<Rightarrow> unit prog" where
  "tar_get w line a =
     with_this (\<lambda>this.
       call w line (TarGet (this_tar (tar this) a)) (outcome (w_tar_get w (this_tar (tar this) a))))"

subsection \<open>Mounting\<close>

definition mountUnionFS :: "world \<Rightarrow> unit prog" where
  "mountUnionFS w =
     with_this (\<lambda>this.
       let args = [''-o'', ''allow_other,auto_unmount,nonempty,large_read,cow,max_files=32768'',
                   upper this @ ''=RW:'' @ lower this @ ''=RO'', mount this]
       in call w 249 (Execa ''unionfs-fuse'' args) (outcome (w_execa w ''unionfs-fuse'' args)))"

fun bindMountLoop :: "world \<Rightarrow> string list \<Rightarrow> unit prog" where
  "bindMountLoop w [] = ret ()"
| "bindMountLoop w (path # rest) =
     seq (if shouldMountExclude path
          then with_this (\<lambda>this.
                 let source = join [data this, path];
                     target = join [mount this, path];
                     upper1 = join [upper this, path]
                 in seq (call w 291 (Mkdirp source) (outcome (w_mkdirp w source)))
                   (\<lambda>_. seq (call w 294 (Mkdirp upper1) (outcome (w_mkdirp w upper1)))
                   (\<lambda>_. call w 295 (Execa ''sudo'' [''mount'', ''--bind'', source, target])
                           (outcome (w_execa w ''sudo'' [''mount'', ''--bind'', source, target])))))
          else ret ())
         (\<lambda>_. bindMountLoop w rest)"

definition bindMountExcludes :: "world \<Rightarrow> unit prog" where
  "bindMountExcludes w = with_this (\<lambda>this. bindMountLoop w (exclude this))"

subsection \<open>Status and scratch files\<close>

definition makeScratchDir :: "world \<Rightarrow> unit prog" where
  "makeScratchDir w =
     with_this (\<lambda>this. call w 405 (Mkdir (scratch this)) (fs_outcome (w_mkdir w (scratch this))))"

definition logSyncError :: "world \<Rightarrow> string \<Rightarrow> unit prog" where
  "logSyncError w mesg =
     try_catch
       (with_this (\<lambda>this.
          call w 410 (WriteFile (error_txt this) (Text mesg)) (fs_outcome (w_writeFile w (error_txt this)))))
       (\<lambda>err. ret ())"

text \<open>\<open>reportState\<close> is throttled (lines 421-436): the event is the invocation, and
  which invocations reach the API depends on real time, which is not modelled.\<close>

definition reportState :: "DetailedState \<Rightarrow> unit prog" where
  "reportState opts = with_this (\<lambda>this. emit (SetDetailedState (compute_server_id this) opts))"

definition getDetailedState :: "world \<Rightarrow> DetailedState option prog" where
  "getDetailedState w =
     with_this (\<lambda>this. call w 439 (GetDetailedState (compute_server_id this)) (w_getDetailedState w))"

subsection \<open>The tree scan\<close>

definition whiteLen :: nat where
  "whiteLen = length ''_HIDDEN~''"

text \<open>The loop of lines 541-551 over the keys of \<open>mtimes\<close>. A key of \<open>mtimes\<close> always
  has a value, so the case \<open>None\<close> is never taken.\<close>

fun whiteoutLoop ::
  "world \<Rightarrow> string \<Rightarrow> FilesystemState \<Rightarrow> string list \<Rightarrow> FilesystemState \<times> string list
   \<Rightarrow> (FilesystemState \<times> string list) prog" where
  "whiteoutLoop w unionfs mtimes [] acc = ret acc"
| "whiteoutLoop w unionfs mtimes (path # rest) (computeState, whiteouts) =
     (case map_of mtimes path of
        None \<Rightarrow> whiteoutLoop w unionfs mtimes rest (computeState, whiteouts)
      | Some mtime \<Rightarrow>
          if endsWith path ''_HIDDEN~''
          then (let p = take (length path - whiteLen) path
                in seq (call w 546 (Stat (join [unionfs, path])) (fs_result (w_isDirectory w (join [unionfs, path]))))
                     (\<lambda>isDirectory. whiteoutLoop w unionfs mtimes rest
                        (AList.update p (- mtime) computeState,
                         if isDirectory then whiteouts @ [path] @ [p] else whiteouts @ [path])))
          else whiteoutLoop w unionfs mtimes rest (computeState, whiteouts))"

text \<open>\<open>getComputeState\<close> (lines 523-554).\<close>

definition getComputeState :: "world \<Rightarrow> (FilesystemState \<times> string list) prog" where
  "getComputeState w =
     seq (with_this (\<lambda>this.
            call w 531 (MtimeDirTree (upper this) (exclude this))
              (w_mtimeDirTree w (upper this) (exclude this))))
       (\<lambda>computeState. with_this (\<lambda>this.
          let unionfs = join [upper this, UNIONFS]
          in seq (call w 537 (MtimeDirTree unionfs []) (w_mtimeDirTree w unionfs []))
               (\<lambda>mtimes. whiteoutLoop w unionfs mtimes (map fst mtimes) (computeState, []))))"

subsection \<open>Transfers\<close>

definition sendFiles :: "world \<Rightarrow> string list \<Rightarrow> unit prog" where
  "sendFiles w files =
     with_this (\<lambda>this.
       let target = join [scratch this, ''copy-to-project'']
       in seq (call w 559 (OpenW target) (fs_outcome (w_open w target)))
         (\<lambda>_. seq (call w 560 (FileWrite (join_with [CHR 0x00] files)) (fs_outcome (w_fileWrite w)))
         (\<lambda>_. seq (call w 561 FileClose (fs_outcome (w_fileClose w)))
         (\<lambda>_. tar_send w 571
                 \<lparr> createArgs = [''-c'', ''--null'', ''--no-recursion'', ''--verbatim-files-from'',
                                  ''--files-from'', target],
                   extractArgs = [''--delay-directory-restore'', ''-x''],
                   HOME = None \<rparr>))))"

definition receiveFiles :: "world \<Rightarrow> string \<Rightarrow> unit prog" where
  "receiveFiles w pathToFileList =
     tar_get w 591
       \<lparr> createArgs = [''-c'', ''--null'', ''--no-recursion'', ''--verbatim-files-from'',
                        ''--files-from'', pathToFileList],
         extractArgs = [''--delay-directory-restore'', ''-x''],
         HOME = None \<rparr>"

text \<open>\<open>updateReadTracking\<close> (lines 598-671). The inner \<open>catch\<close> receives a system
  error of \<open>rename\<close>, \<open>copyFile\<close> or \<open>rm\<close>, an object, so that reading \<open>err.code\<close>
  does not throw; both of its branches only log and return, and the \<open>return\<close> is the
  value \<open>False\<close> of the inner block.\<close>

definition updateReadTracking :: "world \<Rightarrow> unit prog" where
  "updateReadTracking w =
     with_this (\<lambda>this.
       case readTrackingFile this of
         None \<Rightarrow> ret ()
       | Some f \<Rightarrow>
           if f = [] then ret ()
           else (let readTrackingOnProject =
                       join [''.compute-servers'', show_nat (compute_server_id this), ''read-tracking''];
                     tmp = join [dirname f, ''.'' @ basename f @ ''.tmp'']
                 in seq (reportState \<lparr> r_state = ''cache-files-from-project'', r_extra = None,
                                       r_timeout = None, r_progress = Some 80 \<rparr>)
                   (\<lambda>_. try_finally
                      (seq (try_catch
                              (seq (call w 629 (Rename f tmp) (fs_outcome (w_rename w f tmp)))
                                (\<lambda>_. seq (call w 630 (CopyFile tmp (join [lower this, readTrackingOnProject]))
                                            (fs_outcome (w_copyFile w tmp (join [lower this, readTrackingOnProject]))))
                                (\<lambda>_. seq (call w 631 (Rm tmp) (fs_outcome (w_rm w tmp)))
                                (\<lambda>_. ret True))))
                              (\<lambda>err. ret False))
                         (\<lambda>moved. if moved
                            then try_catch
                                   (tar_get w 657
                                      \<lparr> createArgs = [''-c'', ''--null'', ''--no-recursion'',
                                                       ''--verbatim-files-from'', ''--files-from'',
                                                       readTrackingOnProject],
                                        extractArgs = [''--keep-newer-files'', ''-x''],
                                        HOME = None \<rparr>)
                                   (\<lambda>err. ret ())
                            else ret ()))
                      (reportState \<lparr> r_state = ''cache-files-from-project'', r_extra = None,
                                     r_timeout = None, r_progress = Some 85 \<rparr>))))"

subsection \<open>One sync cycle\<close>

text \<open>Lines 476-512 of \<open>__doSync\<close>, given the whiteouts of the scan and the answer of
  \<open>api.syncFS\<close>. The tests \<open>removeFromCompute?.length ?? 0 > 0\<close> parse as
  \<open>removeFromCompute?.length ?? (0 > 0)\<close>: false for an undefined list, and the
  length, true when it is not zero, otherwise. The local \<open>isActive\<close> is passed on from
  step to step.\<close>

definition doSync_apply :: "world \<Rightarrow> string list \<Rightarrow> SyncFSResponse \<Rightarrow> unit prog" where
  "doSync_apply w whiteouts resp =
     seq (if length whiteouts > 0
          then seq (with_this (\<lambda>this.
                      call w 479 (Remove whiteouts (join [upper this, UNIONFS]))
                        (outcome (w_remove w whiteouts (join [upper this, UNIONFS])))))
                 (\<lambda>_. ret True)
          else ret False)
     (\<lambda>isActive1.
     seq (case removeFromCompute resp of
            None \<Rightarrow> ret isActive1
          | Some files \<Rightarrow>
              if length files \<noteq> 0
              then seq (with_this (\<lambda>this.
                          call w 483 (Remove files (upper this)) (outcome (w_remove w files (upper this)))))
                     (\<lambda>_. ret True)
              else ret isActive1)
     (\<lambda>isActive2.
     seq (case copyFromCompute resp of
            None \<Rightarrow> ret isActive2
          | Some files \<Rightarrow>
              if length files \<noteq> 0
              then seq (reportState \<lparr> r_state = ''send-'' @ show_nat (length files) @ ''-files-to-project'',
                                      r_extra = None, r_timeout = None, r_progress = Some 50 \<rparr>)
                     (\<lambda>_. seq (sendFiles w files) (\<lambda>_. ret True))
              else ret isActive2)
     (\<lambda>isActive3.
     seq (case copyFromProjectTar resp of
            None \<Rightarrow> ret isActive3
          | Some pathToFileList \<Rightarrow>
              if pathToFileList \<noteq> []
              then seq (reportState \<lparr> r_state = ''receive-files-from-project'', r_extra = None,
                                      r_timeout = None, r_progress = Some 70 \<rparr>)
                     (\<lambda>_. seq (receiveFiles w pathToFileList) (\<lambda>_. ret True))
              else ret isActive3)
     (\<lambda>isActive.
     seq (modify (\<lambda>this. this\<lparr>syncInterval :=
                          (if isActive then syncIntervalMin this
                           else min (syncIntervalMax this) (1.3 * syncInterval this))\<rparr>))
     (\<lambda>_. updateReadTracking w)))))"

text \<open>\<open>__doSync\<close> (lines 446-513).\<close>

definition doSync :: "world \<Rightarrow> unit prog" where
  "doSync w =
     seq (reportState \<lparr> r_state = ''get-compute-state'', r_extra = None,
                        r_timeout = Some 10, r_progress = Some 0 \<rparr>)
     (\<lambda>_. seq (makeScratchDir w)
     (\<lambda>_. seq (with_this (\<lambda>this. call w 450 (ProjectApi (project_id this)) (outcome (w_api w))))
     (\<lambda>_. seq (getComputeState w)
     (\<lambda>(computeState, whiteouts).
        seq (with_this (\<lambda>this.
               call w 458
                 (WriteFile (join [lower this, join [''.compute-servers'', show_nat (compute_server_id this),
                                                     ''compute-state.json.lz4'']])
                    (CompressedJSON computeState))
                 (fs_outcome (w_writeFile w
                    (join [lower this, join [''.compute-servers'', show_nat (compute_server_id this),
                                             ''compute-state.json.lz4'']])))))
        (\<lambda>_. seq (reportState \<lparr> r_state = ''send-state-to-project'', r_extra = None,
                                 r_timeout = Some 10, r_progress = Some 20 \<rparr>)
        (\<lambda>_. seq (with_this (\<lambda>this.
                     call w 468
                       (SyncFSRequest (join [''.compute-servers'', show_nat (compute_server_id this),
                                             ''compute-state.json.lz4''])
                          (exclude this) (compute_server_id this))
                       (w_syncFS w)))
        (\<lambda>resp. doSync_apply w whiteouts resp)))))))"

text \<open>The message of lines 319-329, from the counter after it was incremented and the
  value caught. Both template strings evaluate \<open>err.message.slice\<close>, which throws a
  \<open>TypeError\<close> when \<open>err\<close> has no string message.\<close>

definition failure_message :: "world \<Rightarrow> nat \<Rightarrow> error \<Rightarrow> string prog" where
  "failure_message w n err =
     (if n \<ge> MAX_FAILURES_IN_A_ROW
      then seq (slice_message w 321 err 250)
             (\<lambda>m. ret (''Sync failed '' @ show_nat MAX_FAILURES_IN_A_ROW
                       @ '' in a row.  FIX THE PROBLEM, THEN CLEAR THIS ERROR TO RESUME SYNC. -- ''
                       @ m))
      else seq (slice_message w 328 err 200)
             (\<lambda>m. ret (''Sync failed '' @ show_nat n @ '' times in a row with -- ''
                       @ m @ ''...'')))"

text \<open>The \<open>catch\<close> block of \<open>sync\<close> (lines 317-332). A \<open>TypeError\<close> of the template
  string leaves the block before the report, the log and the \<open>throw\<close>.\<close>

definition sync_catch :: "world \<Rightarrow> error \<Rightarrow> unit prog" where
  "sync_catch w err =
     seq (modify (numFails_update (\<lambda>n. n + 1)))
     (\<lambda>_. seq (with_this (\<lambda>this. failure_message w (numFails this) err))
     (\<lambda>extra. seq (reportState \<lparr> r_state = ''error'', r_extra = Some extra,
                                 r_timeout = Some 60, r_progress = Some 0 \<rparr>)
     (\<lambda>_. seq (logSyncError w extra)
     (\<lambda>_. raise (Error extra)))))"

text \<open>The \<open>finally\<close> block of \<open>sync\<close> (lines 333-343).\<close>

definition sync_finally :: "unit prog" where
  "sync_finally =
     with_this (\<lambda>this.
       if state this \<noteq> Closed
       then seq (reportState \<lparr> r_state = ''ready'', r_extra = None,
                               r_timeout = Some (3 + syncInterval this),
                               r_progress = Some 100 \<rparr>)
              (\<lambda>_. modify (state_update (\<lambda>_. Ready)))
       else ret ())"

text \<open>\<open>sync\<close> (lines 302-344).\<close>

definition sync :: "world \<Rightarrow> unit prog" where
  "sync w =
     with_this (\<lambda>this.
       if state this = Sync then raise (Error ''sync currently in progress'')
       else if state this \<noteq> Ready
       then raise (Error (''can only sync when state is ready but state is '' @ [CHR 0x22]
                          @ state_name (state this) @ [CHR 0x22]))
       else try_finally
              (try_catch
                 (seq (modify (state_update (\<lambda>_. Sync)))
                   (\<lambda>_. seq (doSync w)
                   (\<lambda>_. modify (numFails_update (\<lambda>_. 0)))))
                 (sync_catch w))
              sync_finally)"

subsection \<open>The loop\<close>

text \<open>The test of lines 361-364 on the status read back.\<close>

definition resumable :: "DetailedState option \<Rightarrow> bool" where
  "resumable detailedState =
     (case detailedState of
        None \<Rightarrow> False
      | Some d \<Rightarrow> \<not> truthy_str (r_extra d) \<or> r_state d \<noteq> ''error'')"

text \<open>The back-off of lines 383-386.\<close>

definition backoff :: "unit prog" where
  "backoff = modify (\<lambda>this. this\<lparr>syncInterval := min (syncIntervalMax this) (1.5 * syncInterval this)\<rparr>)"

text \<open>Lines 355-390 of \<open>syncLoop\<close>: the attempt to sync when the object is ready. The
  \<open>catch\<close> block logs \<open>err.message\<close> (line 381) before it backs off.\<close>

definition syncLoop_attempt :: "world \<Rightarrow> unit prog" where
  "syncLoop_attempt w =
     with_this (\<lambda>this.
       if state this = Ready
       then try_catch
              (with_this (\<lambda>this.
                 if numFails this \<ge> MAX_FAILURES_IN_A_ROW
                 then seq (getDetailedState w)
                        (\<lambda>detailedState.
                           if resumable detailedState
                           then seq (modify (numFails_update (\<lambda>_. 0))) (\<lambda>_. sync w)
                           else ret ())
                 else sync w))
              (\<lambda>err. seq (read_message w 381 err) (\<lambda>_. backoff))
       else ret ())"

text \<open>Lines 396-401 of \<open>syncLoop\<close>: the timer for the next tick; \<open>timeout\<close> holds its
  delay in milliseconds.\<close>

definition syncLoop_schedule :: "world \<Rightarrow> unit prog" where
  "syncLoop_schedule w =
     with_this (\<lambda>this.
       let wait = min (syncIntervalMax this * 1000) (syncInterval this * 1000 + w_elapsed w)
       in seq (emit (SetTimeout wait)) (\<lambda>_. modify (timeout_update (\<lambda>_. Some wait))))"

text \<open>One tick of \<open>syncLoop\<close> (lines 346-402). The timer it sets calls \<open>syncLoop\<close>
  again; a tick that throws has set none.\<close>

definition syncLoop :: "world \<Rightarrow> unit prog" where
  "syncLoop w =
     with_this (\<lambda>this.
       if ''~'' \<in> set (exclude this) \<or> ''.'' \<in> set (exclude this)
       then (let wait = 1000 * 60
             in seq (emit (SetTimeout wait)) (\<lambda>_. modify (timeout_update (\<lambda>_. Some wait))))
       else seq (syncLoop_attempt w) (\<lambda>_. syncLoop_schedule w))"


subsection \<open>Control messages and start-up\<close>

text \<open>A message of the project; \<open>m_paths\<close> is \<open>None\<close> when the message has no entry
  \<open>paths\<close>.\<close>

record message =
  m_event :: string
  m_paths :: "string list option"
  m_id :: "string option"

text \<open>\<open>handleSyncRequest\<close> (lines 200-245); \<open>None\<close> is a message without content. The
  spread \<open>...data.paths\<close> of line 220 is outside the \<open>try\<close> and throws a \<open>TypeError\<close>
  when there are no paths. The reply of lines 234-238 reads \<open>err.message\<close> only when
  there is an id and a websocket.\<close>

definition handleSyncRequest :: "world \<Rightarrow> message option \<Rightarrow> unit prog" where
  "handleSyncRequest w msg =
     (case msg of
        None \<Rightarrow> ret ()
      | Some d \<Rightarrow>
          if m_event d = ''compute_server_sync_request''
          then try_catch (with_this (\<lambda>this. if state this = Sync then ret () else sync w))
                 (\<lambda>err. ret ())
          else if m_event d = ''copy_from_project_to_compute_server''
                  \<or> m_event d = ''copy_from_compute_server_to_project''
          then (case m_paths d of
                  None \<Rightarrow> raise (Error (w_typeError w 220))
                | Some paths \<Rightarrow>
                    try_catch
                      (seq (with_this (\<lambda>this.
                              let args = \<lparr> createArgs = ''-c'' # paths, extractArgs = [''-x''],
                                           HOME = Some (mount this) \<rparr>
                              in if m_event d = ''copy_from_project_to_compute_server''
                                 then tar_get w 224 args
                                 else tar_send w 226 args))
                         (\<lambda>_. with_this (\<lambda>this.
                            if truthy_str (m_id d) \<and> websocket this
                            then emit (WebsocketWrite (Success (the (m_id d))))
                            else ret ())))
                      (\<lambda>err. with_this (\<lambda>this.
                         if truthy_str (m_id d) \<and> websocket this
                         then seq (read_message w 237 err)
                                (\<lambda>m. emit (WebsocketWrite (Failure (the (m_id d)) m)))
                         else ret ())))
          else ret ())"

definition initSyncRequestHandler :: "world \<Rightarrow> unit prog" where
  "initSyncRequestHandler w =
     seq (with_this (\<lambda>this. call w 190 (Websocket (project_id this)) (outcome (w_websocket w))))
     (\<lambda>_. seq (modify (websocket_update (\<lambda>_. True)))
     (\<lambda>_. seq (emit WebsocketOn)
     (\<lambda>_. seq (with_this (\<lambda>this. call w 195 (ProjectApi (project_id this)) (outcome (w_api w))))
     (\<lambda>_. with_this (\<lambda>this.
             call w 196 (ComputeServerSyncRegister (compute_server_id this)) (outcome (w_register w)))))))"

definition init :: "world \<Rightarrow> unit prog" where
  "init w =
     seq (mountUnionFS w)
     (\<lambda>_. seq (bindMountExcludes w)
     (\<lambda>_. seq (makeScratchDir w)
     (\<lambda>_. seq (try_catch
                 (with_this (\<lambda>this. call w 154 (Rm (error_txt this)) (fs_outcome (w_rm w (error_txt this)))))
                 (\<lambda>err. ret ()))
     (\<lambda>_. seq (initSyncRequestHandler w)
     (\<lambda>_. syncLoop w)))))"

section \<open>Observations\<close>

subsection \<open>Kinds of events\<close>

definition new_events :: "SyncFS \<Rightarrow> SyncFS \<Rightarrow> event list" where
  "new_events s s' = drop (length (trace s)) (trace s')"

text \<open>Only \<open>close\<close> runs \<open>fusermount\<close>.\<close>

fun fusermount_call :: "event \<Rightarrow> bool" where
  "fusermount_call (Execa cmd args) = (cmd = ''fusermount'')"
| "fusermount_call _ = False"

fun close_kind :: "event \<Rightarrow> bool" where
  "close_kind ClearTimeout = True"
| "close_kind (Execa cmd args) = (cmd = ''fusermount'' \<or> cmd = ''sudo'' \<and> take 1 args = [''umount''])"
| "close_kind WebsocketRemoveListener = True"
| "close_kind _ = False"

text \<open>Calls to the project and its API, and transfers of files.\<close>

fun is_api_call :: "event \<Rightarrow> bool" where
  "is_api_call (Websocket p) = True"
| "is_api_call (WebsocketWrite a) = True"
| "is_api_call (ProjectApi p) = True"
| "is_api_call (ComputeServerSyncRegister i) = True"
| "is_api_call (SetDetailedState i d) = True"
| "is_api_call (GetDetailedState i) = True"
| "is_api_call (SyncFSRequest f x i) = True"
| "is_api_call _ = False"

fun is_transfer :: "event \<Rightarrow> bool" where
  "is_transfer (Remove fs dir) = True"
| "is_transfer (TarSend a) = True"
| "is_transfer (TarGet a) = True"
| "is_transfer _ = False"

text \<open>The place of a transfer in a cycle: removal of the whiteouts in the directory
  \<open>.unionfs-fuse\<close> of the upper layer \<open>U\<close>, removal in the upper layer, push, pull.
  Other events have place 0.\<close>

fun phase :: "string \<Rightarrow> event \<Rightarrow> nat" where
  "phase U (Remove fs dir) = (if dir = join [U, UNIONFS] then 1 else 2)"
| "phase U (TarSend a) = 3"
| "phase U (TarGet a) = 4"
| "phase U _ = 0"

definition in_order :: "string \<Rightarrow> event list \<Rightarrow> bool" where
  "in_order U evs = sorted (filter (\<lambda>n. 0 < n) (map (phase U) evs))"

text \<open>The same with pulls placed before pushes.\<close>

fun phase_pull_first :: "string \<Rightarrow> event \<Rightarrow> nat" where
  "phase_pull_first U (Remove fs dir) = (if dir = join [U, UNIONFS] then 1 else 2)"
| "phase_pull_first U (TarGet a) = 3"
| "phase_pull_first U (TarSend a) = 4"
| "phase_pull_first U _ = 0"

text \<open>The work that makes a cycle active: a removal, a push, or the pull of a manifest
  of the project (the only \<open>tar.get\<close> that restores directories late).\<close>

fun is_work :: "event \<Rightarrow> bool" where
  "is_work (Remove fs dir) = True"
| "is_work (TarSend a) = True"
| "is_work (TarGet a) = (''--delay-directory-restore'' \<in> set (extractArgs a))"
| "is_work _ = False"

fun follows :: "'a \<Rightarrow> 'a \<Rightarrow> 'a list \<Rightarrow> bool" where
  "follows x y (a # b # rest) = (a = x \<and> b = y \<or> follows x y (b # rest))"
| "follows x y _ = False"

fun is_tar_get :: "event \<Rightarrow> bool" where
  "is_tar_get (TarGet a) = True"
| "is_tar_get _ = False"

fun is_tar_send :: "event \<Rightarrow> bool" where
  "is_tar_send (TarSend a) = True"
| "is_tar_send _ = False"

fun is_remove :: "event \<Rightarrow> bool" where
  "is_remove (Remove fs dir) = True"
| "is_remove _ = False"

text \<open>A \<open>tar.get\<close> of the manifest \<open>path\<close> with the flags of \<open>receiveFiles\<close>.\<close>

fun pulls_manifest :: "string \<Rightarrow> event \<Rightarrow> bool" where
  "pulls_manifest path (TarGet a) =
     (follows ''--files-from'' path (createArgs a)
      \<and> ''--null'' \<in> set (createArgs a) \<and> ''--no-recursion'' \<in> set (createArgs a)
      \<and> ''--verbatim-files-from'' \<in> set (createArgs a)
      \<and> ''--delay-directory-restore'' \<in> set (extractArgs a))"
| "pulls_manifest path _ = False"

subsection \<open>What a run leaves unchanged\<close>

text \<open>\<open>step s s' evs\<close>: from \<open>s\<close> to \<open>s'\<close> the events \<open>evs\<close> were added to the
  trace, the state changed at most to \<open>closed\<close>, and that exactly when \<open>close\<close> ran;
  apart from the timer every other field is as it was. \<open>wstep\<close> lets the interval
  change as well.\<close>

definition step :: "SyncFS \<Rightarrow> SyncFS \<Rightarrow> event list \<Rightarrow> bool" where
  "step s s' evs \<longleftrightarrow>
     (\<exists>st tmo. s' = s\<lparr>state := st, timeout := tmo, trace := trace s @ evs\<rparr>
        \<and> (list_ex fusermount_call evs \<longrightarrow> st = Closed)
        \<and> (st \<noteq> state s \<longrightarrow> st = Closed \<and> list_ex fusermount_call evs))"

definition wstep :: "SyncFS \<Rightarrow> SyncFS \<Rightarrow> event list \<Rightarrow> bool" where
  "wstep s s' evs \<longleftrightarrow> (\<exists>si. step (s\<lparr>syncInterval := si\<rparr>) s' evs)"

definition does :: "(event \<Rightarrow> bool) \<Rightarrow> 'a prog \<Rightarrow> bool" where
  "does P m \<longleftrightarrow> (\<forall>s r s'. m s = (r, s') \<longrightarrow> (\<exists>evs. step s s' evs \<and> list_all P evs))"

text \<open>One of the four guarded transfers of lines 477-500, in place \<open>k\<close>: it leaves
  the interval alone, its transfers have place \<open>k\<close>, and it returns \<open>isActive\<close>, true
  when it was true before (\<open>a0\<close>) or work was done.\<close>

definition transfer_step :: "nat \<Rightarrow> bool \<Rightarrow> bool prog \<Rightarrow> bool" where
  "transfer_step k a0 m \<longleftrightarrow>
     (\<forall>s r s'. m s = (r, s') \<longrightarrow>
        (\<exists>evs. step s s' evs
           \<and> list_all (\<lambda>e. phase (upper s) e = 0 \<or> phase (upper s) e = k) evs
           \<and> (\<forall>a. r = Inr a \<longrightarrow> (a \<longleftrightarrow> a0 \<or> list_ex is_work evs))))"

text \<open>The rest of a cycle from place \<open>k\<close> on: the transfers are in order, a run that
  throws leaves the interval alone, and a run that returns has set it by \<open>isActive\<close>.\<close>

definition cycle_tail :: "nat \<Rightarrow> bool \<Rightarrow> unit prog \<Rightarrow> bool" where
  "cycle_tail k a0 m \<longleftrightarrow>
     (\<forall>s r s'. m s = (r, s') \<longrightarrow>
        (\<exists>evs. wstep s s' evs
           \<and> in_order (upper s) evs
           \<and> list_all (\<lambda>e. phase (upper s) e = 0 \<or> k \<le> phase (upper s) e) evs
           \<and> (case r of
                 Inl e \<Rightarrow> syncInterval s' = syncInterval s
               | Inr _ \<Rightarrow> syncInterval s' =
                   (if a0 \<or> list_ex is_work evs then syncIntervalMin s
                    else min (syncIntervalMax s) (1.3 * syncInterval s)))))"

text \<open>\<open>keeps_closed m\<close>: run on a closed object, \<open>m\<close> leaves it closed.\<close>

definition keeps_closed :: "'a prog \<Rightarrow> bool" where
  "keeps_closed m \<longleftrightarrow> (\<forall>s r s'. m s = (r, s') \<longrightarrow> state s = Closed \<longrightarrow> state s' = Closed)"

subsection \<open>An object and a world to run it in\<close>

definition fs0 :: SyncFS where
  "fs0 = \<lparr> state = Ready, lower = ''/home/user'', upper = ''/upper'', mount = ''/mnt'',
           data = ''/data'', project_id = ''proj'', compute_server_id = 1,
           syncInterval = 10, syncIntervalMin = 10, syncIntervalMax = 30, exclude = [],
           readTrackingFile = None, scratch = ''/home/user/.compute-servers/1'',
           error_txt = ''/home/user/.compute-servers/1/error.txt'', tar = Lz4, numFails = 0,
           timeout = None, websocket = False, trace = [] \<rparr>"

text \<open>In \<open>w0\<close> every call succeeds, both trees are empty, the project asks for nothing,
  and nobody calls \<open>close\<close>.\<close>

definition w0 :: world where
  "w0 = \<lparr> w_execa = (\<lambda>_ _. None), w_mkdirp = (\<lambda>_. None), w_mkdir = (\<lambda>_. None), w_rm = (\<lambda>_. None),
          w_websocket = None, w_api = None, w_register = None, w_getDetailedState = Inr None,
          w_mtimeDirTree = (\<lambda>_ _. Inr []), w_isDirectory = (\<lambda>_. Inr False),
          w_writeFile = (\<lambda>_. None),
          w_syncFS = Inr \<lparr> removeFromCompute = Some [], copyFromCompute = Some [],
                           copyFromProjectTar = None \<rparr>,
          w_remove = (\<lambda>_ _. None), w_open = (\<lambda>_. None), w_fileWrite = None, w_fileClose = None,
          w_tar_send = (\<lambda>_. None), w_tar_get = (\<lambda>_. None), w_rename = (\<lambda>_ _. None),
          w_copyFile = (\<lambda>_ _. None),
          w_typeError = (\<lambda>_. ''TypeError''), w_elapsed = 0, w_closeAt = (\<lambda>_. False) \<rparr>"

text \<open>The options from which the constructor builds \<open>fs0\<close>.\<close>

definition opts0 :: Options where
  "opts0 = \<lparr> opt_lower = ''/home/user'', opt_upper = ''/upper'', opt_mount = ''/mnt'',
             opt_project_id = ''proj'', opt_compute_server_id = 1, opt_syncIntervalMin = None,
             opt_syncIntervalMax = None, opt_exclude = None, opt_readTrackingFile = None,
             opt_compression = JUndefined, opt_data = None \<rparr>"

text \<open>What \<open>failure_message\<close> makes of an \<open>Error\<close> with the message \<open>m\<close>, the
  \<open>n\<close>-th failure in a row, and the source line whose template string is evaluated.\<close>

definition summary :: "nat \<Rightarrow> string \<Rightarrow> string" where
  "summary n m =
     (if n \<ge> MAX_FAILURES_IN_A_ROW
      then ''Sync failed '' @ show_nat MAX_FAILURES_IN_A_ROW
           @ '' in a row.  FIX THE PROBLEM, THEN CLEAR THIS ERROR TO RESUME SYNC. -- ''
           @ take 250 m
      else ''Sync failed '' @ show_nat n @ '' times in a row with -- '' @ take 200 m @ ''...'')"

definition summary_line :: "nat \<Rightarrow> nat" where
  "summary_line n = (if n \<ge> MAX_FAILURES_IN_A_ROW then 321 else 328)"

text \<open>The thrown values of which no property can be read.\<close>

fun nullish :: "error \<Rightarrow> bool" where
  "nullish (Thrown JUndefined) = True"
| "nullish (Thrown JNull) = True"
| "nullish _ = False"

text \<open>\<open>returns m\<close>: the statement \<open>m\<close> never throws.\<close>

definition returns :: "'a prog \<Rightarrow> bool" where
  "returns m \<longleftrightarrow> (\<forall>s. \<exists>x. fst (m s) = Inr x)"

text \<open>Worlds that differ from \<open>w0\<close> in one point: the project API cannot be reached;
  \<open>close()\<close> is called while the project API is awaited on line 450; the project asks
  for a push and a pull; the project asks for a pull only.\<close>

definition w_fail :: world where
  "w_fail = w0\<lparr>w_api := Some (Error ''boom'')\<rparr>"

definition w_close :: world where
  "w_close = w0\<lparr>w_closeAt := (\<lambda>line. line = 450)\<rparr>"

definition w_both :: world where
  "w_both = w0\<lparr>w_syncFS := Inr \<lparr> removeFromCompute = Some [], copyFromCompute = Some [''b.txt''],
                                    copyFromProjectTar = Some ''manifest'' \<rparr>\<rparr>"

definition w_pull :: world where
  "w_pull = w0\<lparr>w_mtimeDirTree := (\<lambda>p x. if p = ''/upper'' then Inr [(''foo.txt'', 100)] else Inr []),
               w_syncFS := Inr \<lparr> removeFromCompute = Some [], copyFromCompute = Some [],
                                   copyFromProjectTar = Some ''manifest'' \<rparr>\<rparr>"

text \<open>The project API rejects with a string; the status cannot be read: the read rejects
  with \<open>undefined\<close>.\<close>

definition w_string :: world where
  "w_string = w0\<lparr>w_api := Some (Thrown (JStr ''timeout''))\<rparr>"

definition w_unread :: world where
  "w_unread = w0\<lparr>w_getDetailedState := Inl (Thrown JUndefined)\<rparr>"

text \<open>The project asks for a push and a pull, and the pull fails.\<close>

definition w_half :: world where
  "w_half = w_both\<lparr>w_tar_get := (\<lambda>_. Some (Error ''tar''))\<rparr>"


text \<open>The interval is within its bounds, and the lower bound is not negative.\<close>

definition interval_ok :: "SyncFS \<Rightarrow> bool" where
  "interval_ok s \<longleftrightarrow>
     0 \<le> syncIntervalMin s \<and> syncIntervalMin s \<le> syncInterval s \<and> syncInterval s \<le> syncIntervalMax s"

text \<open>An object whose last three cycles failed, and a world in which the status read
  back has no error.\<close>

definition fs3 :: SyncFS where
  "fs3 = fs0\<lparr>numFails := 3\<rparr>"


section \<open>Running the methods\<close>

subsection \<open>The statements of a method, applied to an object\<close>

lemma ret_apply: "ret x s = (Inr x, s)"
  by (simp add: ret_def)

lemma raise_apply: "raise e s = (Inl e, s)"
  by (simp add: raise_def)

lemma seq_apply: "seq m f s = (case m s of (Inl e, s') \<Rightarrow> (Inl e, s') | (Inr x, s') \<Rightarrow> f x s')"
  by (simp add: seq_def)

lemma try_catch_apply:
  "try_catch m h s = (case m s of (Inl e, s') \<Rightarrow> h e s' | (Inr x, s') \<Rightarrow> (Inr x, s'))"
  by (simp add: try_catch_def)

lemma try_finally_apply:
  "try_finally m fin s =
     (case m s of (r, s') \<Rightarrow> (case fin s' of (Inl e, s'') \<Rightarrow> (Inl e, s'') | (Inr _, s'') \<Rightarrow> (r, s'')))"
  by (simp add: try_finally_def)

lemma with_this_apply: "with_this F s = F s s"
  by (simp add: with_this_def)

lemma modify_apply: "modify g s = (Inr (), g s)"
  by (simp add: modify_def)

lemma emit_apply: "emit ev s = (Inr (), trace_update (\<lambda>t. t @ [ev]) s)"
  by (simp add: emit_def modify_def)

lemma call0_apply: "call0 ev out s = (out, trace_update (\<lambda>t. t @ [ev]) s)"
  by (simp add: call0_def)

lemma call_apply:
  "call w line ev out s = (out, interleave_close w line (trace_update (\<lambda>t. t @ [ev]) s))"
  by (simp add: call_def)

lemma reportState_apply:
  "reportState opts s = (Inr (), trace_update (\<lambda>t. t @ [SetDetailedState (compute_server_id s) opts]) s)"
  by (simp add: reportState_def with_this_apply emit_apply)

lemmas prog_apply = ret_apply raise_apply seq_apply try_catch_apply try_finally_apply
  with_this_apply modify_apply emit_apply call0_apply call_apply reportState_apply

lemma swallow_call0:
  "try_catch (with_this (\<lambda>this. call0 (ev this) (outcome (out this)))) (\<lambda>err. ret ()) s
     = (Inr (), trace_update (\<lambda>t. t @ [ev s]) s)"
  by (cases "out s") (simp_all add: prog_apply)

subsection \<open>The frame of a run\<close>

lemma stepI:
  "s' = s\<lparr>state := st, timeout := tmo, trace := trace s @ evs\<rparr> \<Longrightarrow>
   (list_ex fusermount_call evs \<Longrightarrow> st = Closed) \<Longrightarrow>
   (st \<noteq> state s \<Longrightarrow> st = Closed \<and> list_ex fusermount_call evs) \<Longrightarrow> step s s' evs"
  unfolding step_def by blast

lemma step_refl: "step s s []"
  by (rule stepI[where st="state s" and tmo="timeout s"]) simp_all

lemma step_trans: "step s s1 a \<Longrightarrow> step s1 s2 b \<Longrightarrow> step s s2 (a @ b)"
  unfolding step_def by (elim exE conjE) (auto split: if_splits)

lemma step_one: "\<not> fusermount_call ev \<Longrightarrow> step s (trace_update (\<lambda>t. t @ [ev]) s) [ev]"
  by (rule stepI[where st="state s" and tmo="timeout s"]) simp_all

lemma step_fields:
  assumes "step s s' evs"
  shows "lower s' = lower s" "upper s' = upper s" "mount s' = mount s" "data s' = data s"
    "project_id s' = project_id s" "compute_server_id s' = compute_server_id s"
    "syncInterval s' = syncInterval s" "syncIntervalMin s' = syncIntervalMin s"
    "syncIntervalMax s' = syncIntervalMax s" "exclude s' = exclude s"
    "readTrackingFile s' = readTrackingFile s" "scratch s' = scratch s"
    "error_txt s' = error_txt s" "tar s' = tar s" "numFails s' = numFails s"
    "websocket s' = websocket s" "trace s' = trace s @ evs" "new_events s s' = evs"
  using assms unfolding step_def new_events_def by auto

lemma step_state:
  assumes "step s s' evs"
  shows "state s' = (if list_ex fusermount_call evs then Closed else state s)"
  using assms unfolding step_def by auto

lemma step_closed: "step s s' evs \<Longrightarrow> state s = Closed \<Longrightarrow> state s' = Closed"
  unfolding step_def by auto

lemma doesI: "(\<And>s r s'. m s = (r, s') \<Longrightarrow> \<exists>evs. step s s' evs \<and> list_all P evs) \<Longrightarrow> does P m"
  by (simp add: does_def)

lemma doesD: "does P m \<Longrightarrow> m s = (r, s') \<Longrightarrow> \<exists>evs. step s s' evs \<and> list_all P evs"
  by (simp add: does_def)

lemma does_mono: "does P m \<Longrightarrow> (\<And>e. P e \<Longrightarrow> Q e) \<Longrightarrow> does Q m"
  unfolding does_def by (meson list.pred_mono_strong)

lemma does_ret: "does P (ret x)"
  by (rule doesI) (auto simp: ret_def intro: exI[of _ "[]"] step_refl)

lemma does_raise: "does P (raise e)"
  by (rule doesI) (auto simp: raise_def intro: exI[of _ "[]"] step_refl)

lemma does_seq: "does P m \<Longrightarrow> (\<And>x. does P (f x)) \<Longrightarrow> does P (seq m f)"
proof (rule doesI)
  fix s r s'
  assume m: "does P m" and f: "\<And>x. does P (f x)" and run: "seq m f s = (r, s')"
  obtain r1 s1 where 1: "m s = (r1, s1)" by (cases "m s")
  from doesD[OF m 1] obtain a where a: "step s s1 a" "list_all P a" by blast
  show "\<exists>evs. step s s' evs \<and> list_all P evs"
  proof (cases r1)
    case (Inl e)
    with run 1 have "s' = s1" by (simp add: seq_def)
    with a show ?thesis by blast
  next
    case (Inr x)
    with run 1 have "f x s1 = (r, s')" by (simp add: seq_def)
    from doesD[OF f this] obtain b where "step s1 s' b" "list_all P b" by blast
    with a show ?thesis using step_trans by (intro exI[of _ "a @ b"]) auto
  qed
qed

lemma does_try_catch: "does P m \<Longrightarrow> (\<And>e. does P (h e)) \<Longrightarrow> does P (try_catch m h)"
proof (rule doesI)
  fix s r s'
  assume m: "does P m" and h: "\<And>e. does P (h e)" and run: "try_catch m h s = (r, s')"
  obtain r1 s1 where 1: "m s = (r1, s1)" by (cases "m s")
  from doesD[OF m 1] obtain a where a: "step s s1 a" "list_all P a" by blast
  show "\<exists>evs. step s s' evs \<and> list_all P evs"
  proof (cases r1)
    case (Inr x)
    with run 1 have "s' = s1" by (simp add: try_catch_def)
    with a show ?thesis by blast
  next
    case (Inl e)
    with run 1 have "h e s1 = (r, s')" by (simp add: try_catch_def)
    from doesD[OF h this] obtain b where "step s1 s' b" "list_all P b" by blast
    with a show ?thesis using step_trans by (intro exI[of _ "a @ b"]) auto
  qed
qed

lemma does_try_finally: "does P m \<Longrightarrow> does P fin \<Longrightarrow> does P (try_finally m fin)"
proof (rule doesI)
  fix s r s'
  assume m: "does P m" and h: "does P fin" and run: "try_finally m fin s = (r, s')"
  obtain r1 s1 where 1: "m s = (r1, s1)" by (cases "m s")
  obtain r2 s2 where 2: "fin s1 = (r2, s2)" by (cases "fin s1")
  from doesD[OF m 1] obtain a where a: "step s s1 a" "list_all P a" by blast
  from doesD[OF h 2] obtain b where b: "step s1 s2 b" "list_all P b" by blast
  from run 1 2 have "s' = s2" by (cases r2) (simp_all add: try_finally_def)
  with a b show "\<exists>evs. step s s' evs \<and> list_all P evs"
    using step_trans by (intro exI[of _ "a @ b"]) auto
qed

lemma does_with_this: "(\<And>this. does P (F this)) \<Longrightarrow> does P (with_this F)"
  by (auto simp: does_def with_this_def)

lemma does_if: "(b \<Longrightarrow> does P m1) \<Longrightarrow> (\<not> b \<Longrightarrow> does P m2) \<Longrightarrow> does P (if b then m1 else m2)"
  by simp

lemma does_case_option:
  "does P m1 \<Longrightarrow> (\<And>x. does P (m2 x)) \<Longrightarrow> does P (case v of None \<Rightarrow> m1 | Some x \<Rightarrow> m2 x)"
  by (cases v) simp_all

lemma does_case_prod: "(\<And>a b. does P (f a b)) \<Longrightarrow> does P (case p of (a, b) \<Rightarrow> f a b)"
  by (cases p) simp

lemma does_let: "does P (f v) \<Longrightarrow> does P (let x = v in f x)"
  by simp

lemma does_call0: "P ev \<Longrightarrow> \<not> fusermount_call ev \<Longrightarrow> does P (call0 ev out)"
  by (rule doesI) (auto simp: call0_def intro!: exI[of _ "[ev]"] step_one)

lemma does_emit: "P ev \<Longrightarrow> \<not> fusermount_call ev \<Longrightarrow> does P (emit ev)"
  by (rule doesI) (auto simp: emit_def modify_def intro!: exI[of _ "[ev]"] step_one)

lemma does_set_timeout: "does P (modify (timeout_update g))"
proof (rule doesI)
  fix s r s' assume "modify (timeout_update g) s = (r, s')"
  then have s': "s' = timeout_update g s" by (simp add: modify_def)
  have "step s s' []" unfolding s'
    by (rule stepI[where st="state s" and tmo="g (timeout s)"]) simp_all
  then show "\<exists>evs. step s s' evs \<and> list_all P evs" by (intro exI[of _ "[]"]) simp
qed

lemmas does_basic = does_ret does_raise does_seq does_try_catch does_try_finally does_with_this
  does_if does_case_option does_case_prod does_let does_set_timeout

subsection \<open>What \<open>close\<close> does\<close>

lemma does_unmountLoop: "does close_kind (unmountLoop w xs)"
  by (induction xs) (auto intro!: does_basic does_call0)

lemma does_close_rest:
  "does close_kind (seq (try_catch (unmountExcludes w) (\<lambda>err. ret ()))
     (\<lambda>_. with_this (\<lambda>this. if websocket this then emit WebsocketRemoveListener else ret ())))"
  unfolding unmountExcludes_def
  by (intro does_basic does_unmountLoop does_emit) simp_all

lemma close_closed: "state s = Closed \<Longrightarrow> close w s = (Inr (), s)"
  by (simp add: close_def prog_apply)

lemma close_unfold:
  "state s \<noteq> Closed \<Longrightarrow>
   close w s = seq (try_catch (unmountExcludes w) (\<lambda>err. ret ()))
     (\<lambda>_. with_this (\<lambda>this. if websocket this then emit WebsocketRemoveListener else ret ()))
     (s\<lparr>state := Closed, timeout := None,
        trace := trace s @ (if timeout s \<noteq> None then [ClearTimeout] else [])
                 @ [Execa ''fusermount'' [''-uz'', mount s]]\<rparr>)"
  unfolding close_def
  by (cases s) (simp add: with_this_apply seq_apply[of "modify _"] seq_apply[of "emit _"]
      seq_apply[of "try_catch (with_this _) _"] seq_apply[of "with_this _"]
      modify_apply emit_apply swallow_call0 ret_apply)

lemma step_close: "\<exists>evs. step s (snd (close w s)) evs \<and> list_all close_kind evs"
proof (cases "state s = Closed")
  case True
  then show ?thesis by (auto simp: close_closed intro: exI[of _ "[]"] step_refl)
next
  case False
  let ?pre = "(if timeout s \<noteq> None then [ClearTimeout] else []) @ [Execa ''fusermount'' [''-uz'', mount s]]"
  let ?s2 = "s\<lparr>state := Closed, timeout := None, trace := trace s @ ?pre\<rparr>"
  let ?rest = "seq (try_catch (unmountExcludes w) (\<lambda>err. ret ()))
     (\<lambda>_. with_this (\<lambda>this. if websocket this then emit WebsocketRemoveListener else ret ()))"
  obtain r3 s3 where 3: "?rest ?s2 = (r3, s3)" by (cases "?rest ?s2")
  from doesD[OF does_close_rest 3] obtain b where b: "step ?s2 s3 b" "list_all close_kind b" by blast
  have cl: "snd (close w s) = s3" using close_unfold[OF False, of w] 3 by simp
  have a: "step s ?s2 ?pre"
    by (rule stepI[where st=Closed and tmo=None]) simp_all
  from step_trans[OF a b(1)] b(2) cl show ?thesis
    by (intro exI[of _ "?pre @ b"]) auto
qed

lemma state_close: "state (snd (close w s)) = Closed"
proof (cases "state s = Closed")
  case True
  then show ?thesis by (simp add: close_closed)
next
  case False
  let ?pre = "(if timeout s \<noteq> None then [ClearTimeout] else []) @ [Execa ''fusermount'' [''-uz'', mount s]]"
  let ?s2 = "s\<lparr>state := Closed, timeout := None, trace := trace s @ ?pre\<rparr>"
  let ?rest = "seq (try_catch (unmountExcludes w) (\<lambda>err. ret ()))
     (\<lambda>_. with_this (\<lambda>this. if websocket this then emit WebsocketRemoveListener else ret ()))"
  obtain r3 s3 where 3: "?rest ?s2 = (r3, s3)" by (cases "?rest ?s2")
  from doesD[OF does_close_rest 3] obtain b where b: "step ?s2 s3 b" by blast
  then have "state s3 = Closed" by (rule step_closed) simp
  then show ?thesis using close_unfold[OF False, of w] 3 by simp
qed

lemma step_interleave:
  "\<exists>evs. step s (interleave_close w line s) evs \<and> list_all close_kind evs"
  unfolding interleave_close_def using step_close[of s w]
  by (auto intro: exI[of _ "[]"] step_refl)

lemma state_interleave:
  "state (interleave_close w line s) = (if w_closeAt w line then Closed else state s)"
  by (simp add: interleave_close_def state_close)

lemma does_call:
  assumes "P ev" "\<not> fusermount_call ev" "\<And>e. close_kind e \<Longrightarrow> P e"
  shows "does P (call w line ev out)"
proof (rule doesI)
  fix s r s'
  assume run: "call w line ev out s = (r, s')"
  let ?s1 = "trace_update (\<lambda>t. t @ [ev]) s"
  have a: "step s ?s1 [ev]" using assms(2) by (rule step_one)
  from run have s': "s' = interleave_close w line ?s1" by (simp add: call_apply)
  from step_interleave[of ?s1 w line] obtain b
    where b: "step ?s1 (interleave_close w line ?s1) b" "list_all close_kind b" by blast
  from b(2) assms(3) have "list_all P b" by (simp add: list_all_iff)
  with step_trans[OF a b(1)] s' assms(1) show "\<exists>evs. step s s' evs \<and> list_all P evs"
    by (intro exI[of _ "[ev] @ b"]) simp
qed

lemmas does_leaf = does_basic does_call does_emit

text \<open>Reading the message of a caught value touches nothing.\<close>

lemma read_message_cases:
  obtains (some) m where "read_message w l err = ret m"
  | (type_error) "read_message w l err = raise (Error (w_typeError w l))"
      "err = Thrown JUndefined \<or> err = Thrown JNull"
proof (cases err)
  case (Error m)
  then show thesis using some[of "Some m"] by simp
next
  case (Thrown v)
  then show thesis using some[of None] type_error by (cases v) simp_all
qed

lemma read_message_Error: "read_message w l (Error m) = ret (Some m)"
  by simp

lemma slice_message_Error: "slice_message w l (Error m) n = ret (take n m)"
  by (rule ext) (simp add: slice_message_def seq_apply ret_apply)

lemma slice_message_Thrown: "slice_message w l (Thrown v) n = raise (Error (w_typeError w l))"
  by (rule ext) (cases v; simp add: slice_message_def seq_apply ret_apply raise_apply)

lemma does_read_message: "does P (read_message w l err)"
  by (rule read_message_cases[of w l err]) (simp_all add: does_ret does_raise)

lemma does_slice_message: "does P (slice_message w l err n)"
  by (cases err) (simp_all add: slice_message_Error slice_message_Thrown does_ret does_raise)

subsection \<open>Statements that never throw\<close>

lemma returnsD: "returns m \<Longrightarrow> m s = (r, s') \<Longrightarrow> \<exists>x. r = Inr x"
  unfolding returns_def by (metis fst_conv)

lemma returns_ret: "returns (ret x)"
  by (simp add: returns_def ret_apply)

lemma returns_modify: "returns (modify g)"
  by (simp add: returns_def modify_apply)

lemma returns_emit: "returns (emit ev)"
  by (simp add: returns_def emit_apply)

lemma returns_reportState: "returns (reportState d)"
  by (simp add: returns_def reportState_apply)

lemma returns_seq: "returns m \<Longrightarrow> (\<And>x. returns (f x)) \<Longrightarrow> returns (seq m f)"
  unfolding returns_def
proof
  fix s
  assume m: "\<forall>s. \<exists>x. fst (m s) = Inr x" and f: "\<And>x. \<forall>s. \<exists>y. fst (f x s) = Inr y"
  obtain r1 s1 where 1: "m s = (r1, s1)" by (cases "m s")
  with m obtain x where "r1 = Inr x" by (metis fst_conv)
  with 1 f[of x] show "\<exists>y. fst (seq m f s) = Inr y" by (simp add: seq_apply)
qed

lemma returns_try_catch: "(\<And>e. returns (h e)) \<Longrightarrow> returns (try_catch m h)"
  unfolding returns_def
proof
  fix s
  assume h: "\<And>e. \<forall>s. \<exists>y. fst (h e s) = Inr y"
  obtain r1 s1 where 1: "m s = (r1, s1)" by (cases "m s")
  show "\<exists>y. fst (try_catch m h s) = Inr y"
  proof (cases r1)
    case (Inl e)
    with 1 h[of e] show ?thesis by (simp add: try_catch_apply)
  next
    case (Inr x)
    with 1 show ?thesis by (simp add: try_catch_apply)
  qed
qed

lemma returns_try_finally: "returns m \<Longrightarrow> returns fin \<Longrightarrow> returns (try_finally m fin)"
  unfolding returns_def
proof
  fix s
  assume m: "\<forall>s. \<exists>x. fst (m s) = Inr x" and f: "\<forall>s. \<exists>y. fst (fin s) = Inr y"
  obtain r1 s1 where 1: "m s = (r1, s1)" by (cases "m s")
  with m obtain x where x: "r1 = Inr x" by (metis fst_conv)
  obtain r2 s2 where 2: "fin s1 = (r2, s2)" by (cases "fin s1")
  with f obtain y where "r2 = Inr y" by (metis fst_conv)
  with 1 2 x show "\<exists>y. fst (try_finally m fin s) = Inr y" by (simp add: try_finally_apply)
qed

lemma returns_with_this: "(\<And>this. returns (F this)) \<Longrightarrow> returns (with_this F)"
  by (simp add: returns_def with_this_apply)

lemma returns_if: "(b \<Longrightarrow> returns m1) \<Longrightarrow> (\<not> b \<Longrightarrow> returns m2) \<Longrightarrow> returns (if b then m1 else m2)"
  by simp

lemma returns_case_option:
  "returns m1 \<Longrightarrow> (\<And>x. returns (m2 x)) \<Longrightarrow> returns (case v of None \<Rightarrow> m1 | Some x \<Rightarrow> m2 x)"
  by (cases v) simp_all

lemma returns_let: "returns (f v) \<Longrightarrow> returns (let x = v in f x)"
  by simp

lemmas returns_intros = returns_ret returns_modify returns_emit returns_reportState returns_seq
  returns_try_catch returns_try_finally returns_with_this returns_if returns_case_option
  returns_let

lemma returns_updateReadTracking: "returns (updateReadTracking w)"
  unfolding updateReadTracking_def by (intro returns_intros)

lemma returns_logSyncError: "returns (logSyncError w mesg)"
  unfolding logSyncError_def by (intro returns_intros)

subsection \<open>Events that \<open>close\<close> adds\<close>

lemma close_kind_quiet:
  assumes "close_kind e"
  shows "phase U e = 0" "\<not> is_work e" "\<not> is_transfer e" "\<not> is_api_call e"
    "\<not> is_remove e" "\<not> is_tar_send e" "\<not> is_tar_get e" "\<not> pulls_manifest p e"
  using assms by (cases e; simp)+

lemma call_run:
  assumes "call w l ev out s = (r, s')" "\<not> fusermount_call ev"
  obtains c where "r = out" "step s s' (ev # c)" "list_all close_kind c"
proof -
  let ?s1 = "trace_update (\<lambda>t. t @ [ev]) s"
  from assms(1) have r: "r = out" and s': "s' = interleave_close w l ?s1"
    by (simp_all add: call_apply)
  from step_interleave[of ?s1 w l] obtain c
    where c: "step ?s1 (interleave_close w l ?s1) c" "list_all close_kind c" by blast
  from step_trans[OF step_one[OF assms(2)] c(1)] s' have "step s s' (ev # c)" by simp
  with r c(2) that show thesis by blast
qed

subsection \<open>The frame of a cycle\<close>

lemma step_wstep: "step s s' evs \<Longrightarrow> wstep s s' evs"
  unfolding wstep_def by (rule exI[of _ "syncInterval s"]) simp

lemma wstepE:
  assumes "wstep s s' evs"
  obtains st tmo si where
    "s' = s\<lparr>syncInterval := si, state := st, timeout := tmo, trace := trace s @ evs\<rparr>"
    "list_ex fusermount_call evs \<longrightarrow> st = Closed"
    "st \<noteq> state s \<longrightarrow> st = Closed \<and> list_ex fusermount_call evs"
  using assms unfolding wstep_def step_def by auto

lemma wstepI:
  "s' = s\<lparr>syncInterval := si, state := st, timeout := tmo, trace := trace s @ evs\<rparr> \<Longrightarrow>
   (list_ex fusermount_call evs \<longrightarrow> st = Closed) \<Longrightarrow>
   (st \<noteq> state s \<longrightarrow> st = Closed \<and> list_ex fusermount_call evs) \<Longrightarrow> wstep s s' evs"
  unfolding wstep_def
  by (rule exI[of _ si], rule stepI[where st=st and tmo=tmo]) simp_all

lemma wstep_trans:
  assumes "wstep s s1 a" "wstep s1 s2 b"
  shows "wstep s s2 (a @ b)"
proof -
  from assms(1) obtain st1 t1 si1 where
    1: "s1 = s\<lparr>syncInterval := si1, state := st1, timeout := t1, trace := trace s @ a\<rparr>"
    and c1: "list_ex fusermount_call a \<longrightarrow> st1 = Closed"
      "st1 \<noteq> state s \<longrightarrow> st1 = Closed \<and> list_ex fusermount_call a"
    by (rule wstepE)
  from assms(2) obtain st2 t2 si2 where
    2: "s2 = s1\<lparr>syncInterval := si2, state := st2, timeout := t2, trace := trace s1 @ b\<rparr>"
    and c2: "list_ex fusermount_call b \<longrightarrow> st2 = Closed"
      "st2 \<noteq> state s1 \<longrightarrow> st2 = Closed \<and> list_ex fusermount_call b"
    by (rule wstepE)
  have st1: "state s1 = st1" unfolding 1 by simp
  have eq: "s2 = s\<lparr>syncInterval := si2, state := st2, timeout := t2, trace := trace s @ a @ b\<rparr>"
    unfolding 2 1 by simp
  have ca: "list_ex fusermount_call (a @ b) \<longrightarrow> st2 = Closed"
    using c1 c2 st1 by (cases "list_ex fusermount_call a") auto
  have cb: "st2 \<noteq> state s \<longrightarrow> st2 = Closed \<and> list_ex fusermount_call (a @ b)"
    using c1 c2 st1 by (cases "st1 = state s") auto
  from eq ca cb show ?thesis by (rule wstepI)
qed

lemma wstep_fields:
  assumes "wstep s s' evs"
  shows "lower s' = lower s" "upper s' = upper s" "mount s' = mount s" "data s' = data s"
    "project_id s' = project_id s" "compute_server_id s' = compute_server_id s"
    "syncIntervalMin s' = syncIntervalMin s"
    "syncIntervalMax s' = syncIntervalMax s" "exclude s' = exclude s"
    "readTrackingFile s' = readTrackingFile s" "scratch s' = scratch s"
    "error_txt s' = error_txt s" "tar s' = tar s" "numFails s' = numFails s"
    "websocket s' = websocket s" "trace s' = trace s @ evs" "new_events s s' = evs"
proof -
  from assms obtain st tmo si where
    "s' = s\<lparr>syncInterval := si, state := st, timeout := tmo, trace := trace s @ evs\<rparr>"
    by (rule wstepE)
  then show "lower s' = lower s" "upper s' = upper s" "mount s' = mount s" "data s' = data s"
    "project_id s' = project_id s" "compute_server_id s' = compute_server_id s"
    "syncIntervalMin s' = syncIntervalMin s"
    "syncIntervalMax s' = syncIntervalMax s" "exclude s' = exclude s"
    "readTrackingFile s' = readTrackingFile s" "scratch s' = scratch s"
    "error_txt s' = error_txt s" "tar s' = tar s" "numFails s' = numFails s"
    "websocket s' = websocket s" "trace s' = trace s @ evs" "new_events s s' = evs"
    by (simp_all add: new_events_def)
qed

lemma wstep_state:
  assumes "wstep s s' evs"
  shows "state s' = (if list_ex fusermount_call evs then Closed else state s)"
proof -
  from assms obtain st tmo si where
    "s' = s\<lparr>syncInterval := si, state := st, timeout := tmo, trace := trace s @ evs\<rparr>"
    "list_ex fusermount_call evs \<longrightarrow> st = Closed"
    "st \<noteq> state s \<longrightarrow> st = Closed \<and> list_ex fusermount_call evs"
    by (rule wstepE)
  then show ?thesis by auto
qed

lemma wstep_set_interval: "wstep s (s\<lparr>syncInterval := x\<rparr>) []"
  by (rule wstepI[where si=x and st="state s" and tmo="timeout s"]) simp_all

subsection \<open>The order of the transfers\<close>

lemma in_order_same:
  "list_all (\<lambda>e. phase U e = 0 \<or> phase U e = k) evs \<Longrightarrow> in_order U evs"
  unfolding in_order_def
proof (induction evs)
  case Nil
  then show ?case by simp
next
  case (Cons e evs)
  then have "\<forall>n \<in> set (filter (\<lambda>n. 0 < n) (map (phase U) evs)). n = k"
    by (auto simp: list_all_iff)
  with Cons show ?case by auto
qed

lemma in_order_append:
  assumes "list_all (\<lambda>e. phase U e = 0 \<or> phase U e = k) a" "in_order U b"
    and "list_all (\<lambda>e. phase U e = 0 \<or> k \<le> phase U e) b"
  shows "in_order U (a @ b)"
proof -
  have "sorted (filter (\<lambda>n. 0 < n) (map (phase U) a))"
    using in_order_same[OF assms(1)] by (simp add: in_order_def)
  moreover have "x \<le> y"
    if "x \<in> set (filter (\<lambda>n. 0 < n) (map (phase U) a))"
      "y \<in> set (filter (\<lambda>n. 0 < n) (map (phase U) b))" for x y
  proof -
    from that(1) assms(1) have "x = k" by (auto simp: list_all_iff)
    moreover from that(2) assms(3) have "k \<le> y" by (auto simp: list_all_iff)
    ultimately show ?thesis by simp
  qed
  ultimately show ?thesis using assms(2) by (simp add: in_order_def sorted_append)
qed

lemma cycle_tailI:
  assumes "\<And>s r s'. m s = (r, s') \<Longrightarrow>
     \<exists>evs. wstep s s' evs \<and> in_order (upper s) evs
        \<and> list_all (\<lambda>e. phase (upper s) e = 0 \<or> k \<le> phase (upper s) e) evs
        \<and> (case r of Inl e \<Rightarrow> syncInterval s' = syncInterval s
            | Inr _ \<Rightarrow> syncInterval s' =
                (if a0 \<or> list_ex is_work evs then syncIntervalMin s
                 else min (syncIntervalMax s) (1.3 * syncInterval s)))"
  shows "cycle_tail k a0 m"
  unfolding cycle_tail_def by (intro allI impI) (rule assms)

lemma cycle_tailD:
  assumes "cycle_tail k a0 m" "m s = (r, s')"
  shows "\<exists>evs. wstep s s' evs \<and> in_order (upper s) evs
    \<and> list_all (\<lambda>e. phase (upper s) e = 0 \<or> k \<le> phase (upper s) e) evs
    \<and> (case r of Inl e \<Rightarrow> syncInterval s' = syncInterval s
        | Inr _ \<Rightarrow> syncInterval s' =
            (if a0 \<or> list_ex is_work evs then syncIntervalMin s
             else min (syncIntervalMax s) (1.3 * syncInterval s)))"
  using assms(1)[unfolded cycle_tail_def, rule_format, OF assms(2)] .

lemma transfer_stepD:
  assumes "transfer_step k a0 m" "m s = (r, s')"
  shows "\<exists>evs. step s s' evs
    \<and> list_all (\<lambda>e. phase (upper s) e = 0 \<or> phase (upper s) e = k) evs
    \<and> (\<forall>a. r = Inr a \<longrightarrow> (a \<longleftrightarrow> a0 \<or> list_ex is_work evs))"
  using assms(1)[unfolded transfer_step_def, rule_format, OF assms(2)] .

text \<open>A guarded transfer, then the rest of the cycle.\<close>

lemma cycle_tail_seq:
  assumes m: "transfer_step k a0 m" and f: "\<And>a. cycle_tail k' a (f a)" and k: "k \<le> k'"
  shows "cycle_tail k a0 (seq m f)"
proof (rule cycle_tailI)
  fix s r s'
  assume run: "seq m f s = (r, s')"
  obtain r1 s1 where 1: "m s = (r1, s1)" by (cases "m s")
  from transfer_stepD[OF m 1] obtain a where a: "step s s1 a"
    "list_all (\<lambda>e. phase (upper s) e = 0 \<or> phase (upper s) e = k) a"
    "\<forall>x. r1 = Inr x \<longrightarrow> (x \<longleftrightarrow> a0 \<or> list_ex is_work a)" by blast
  note fa = step_fields[OF a(1)]
  let ?goal = "\<lambda>evs. wstep s s' evs \<and> in_order (upper s) evs
        \<and> list_all (\<lambda>e. phase (upper s) e = 0 \<or> k \<le> phase (upper s) e) evs
        \<and> (case r of Inl e \<Rightarrow> syncInterval s' = syncInterval s
            | Inr _ \<Rightarrow> syncInterval s' =
                (if a0 \<or> list_ex is_work evs then syncIntervalMin s
                 else min (syncIntervalMax s) (1.3 * syncInterval s)))"
  show "\<exists>evs. ?goal evs"
  proof (cases r1)
    case (Inl e)
    with run 1 have r: "r = Inl e" "s' = s1" by (simp_all add: seq_apply)
    have "list_all (\<lambda>e. phase (upper s) e = 0 \<or> k \<le> phase (upper s) e) a"
      using a(2) by (auto simp: list_all_iff)
    with r a fa in_order_same[OF a(2)] step_wstep[OF a(1)] have "?goal a" by simp
    then show ?thesis ..
  next
    case (Inr x)
    with run 1 have 2: "f x s1 = (r, s')" by (simp add: seq_apply)
    from cycle_tailD[OF f 2] obtain b where b: "wstep s1 s' b" "in_order (upper s1) b"
      "list_all (\<lambda>e. phase (upper s1) e = 0 \<or> k' \<le> phase (upper s1) e) b"
      "case r of Inl e \<Rightarrow> syncInterval s' = syncInterval s1
       | Inr _ \<Rightarrow> syncInterval s' =
           (if x \<or> list_ex is_work b then syncIntervalMin s1
            else min (syncIntervalMax s1) (1.3 * syncInterval s1))" by blast
    have bk: "list_all (\<lambda>e. phase (upper s) e = 0 \<or> k \<le> phase (upper s) e) b"
      using b(3) k fa(2) by (auto simp: list_all_iff)
    have ak: "list_all (\<lambda>e. phase (upper s) e = 0 \<or> k \<le> phase (upper s) e) a"
      using a(2) by (auto simp: list_all_iff)
    have ord: "in_order (upper s) (a @ b)"
      using in_order_append[OF a(2) _ bk] b(2) fa(2) by simp
    have w: "wstep s s' (a @ b)" using wstep_trans[OF step_wstep[OF a(1)] b(1)] .
    have iv: "case r of Inl e \<Rightarrow> syncInterval s' = syncInterval s
            | Inr _ \<Rightarrow> syncInterval s' =
                (if a0 \<or> list_ex is_work (a @ b) then syncIntervalMin s
                 else min (syncIntervalMax s) (1.3 * syncInterval s))"
      using b(4) a(3) Inr fa by (cases r) auto
    from w ord ak bk iv have "?goal (a @ b)" by simp
    then show ?thesis ..
  qed
qed

text \<open>A statement without transfers, then the rest of the cycle.\<close>

lemma cycle_tail_prefix:
  assumes m: "does (\<lambda>e. \<not> is_transfer e) m" and f: "\<And>x. cycle_tail k a0 (f x)"
  shows "cycle_tail k a0 (seq m f)"
proof (rule cycle_tailI)
  fix s r s'
  assume run: "seq m f s = (r, s')"
  obtain r1 s1 where 1: "m s = (r1, s1)" by (cases "m s")
  from doesD[OF m 1] obtain a where a: "step s s1 a" "list_all (\<lambda>e. \<not> is_transfer e) a" by blast
  note fa = step_fields[OF a(1)]
  have quiet: "phase U e = 0 \<and> \<not> is_work e" if "\<not> is_transfer e" for U e
    using that by (cases e) simp_all
  have a0: "list_all (\<lambda>e. phase (upper s) e = 0 \<or> phase (upper s) e = 0) a"
    and aw: "\<not> list_ex is_work a"
    using a(2) quiet by (auto simp: list_all_iff list_ex_iff)
  let ?goal = "\<lambda>evs. wstep s s' evs \<and> in_order (upper s) evs
        \<and> list_all (\<lambda>e. phase (upper s) e = 0 \<or> k \<le> phase (upper s) e) evs
        \<and> (case r of Inl e \<Rightarrow> syncInterval s' = syncInterval s
            | Inr _ \<Rightarrow> syncInterval s' =
                (if a0 \<or> list_ex is_work evs then syncIntervalMin s
                 else min (syncIntervalMax s) (1.3 * syncInterval s)))"
  have ak: "list_all (\<lambda>e. phase (upper s) e = 0 \<or> k \<le> phase (upper s) e) a"
    using a0 by (auto simp: list_all_iff)
  show "\<exists>evs. ?goal evs"
  proof (cases r1)
    case (Inl e)
    with run 1 have r: "r = Inl e" "s' = s1" by (simp_all add: seq_apply)
    with a fa in_order_same[OF a0] step_wstep[OF a(1)] ak have "?goal a" by simp
    then show ?thesis ..
  next
    case (Inr x)
    with run 1 have 2: "f x s1 = (r, s')" by (simp add: seq_apply)
    from cycle_tailD[OF f 2] obtain b where b: "wstep s1 s' b" "in_order (upper s1) b"
      "list_all (\<lambda>e. phase (upper s1) e = 0 \<or> k \<le> phase (upper s1) e) b"
      "case r of Inl e \<Rightarrow> syncInterval s' = syncInterval s1
       | Inr _ \<Rightarrow> syncInterval s' =
           (if a0 \<or> list_ex is_work b then syncIntervalMin s1
            else min (syncIntervalMax s1) (1.3 * syncInterval s1))" by blast
    have bk: "list_all (\<lambda>e. phase (upper s) e = 0 \<or> k \<le> phase (upper s) e) b"
      using b(3) fa(2) by simp
    have b0: "list_all (\<lambda>e. phase (upper s) e = 0 \<or> 0 \<le> phase (upper s) e) b"
      by (simp add: list_all_iff)
    have ord: "in_order (upper s) (a @ b)"
      using in_order_append[OF a0 _ b0] b(2) fa(2) by simp
    have w: "wstep s s' (a @ b)" using wstep_trans[OF step_wstep[OF a(1)] b(1)] .
    have iv: "case r of Inl e \<Rightarrow> syncInterval s' = syncInterval s
            | Inr _ \<Rightarrow> syncInterval s' =
                (if a0 \<or> list_ex is_work (a @ b) then syncIntervalMin s
                 else min (syncIntervalMax s) (1.3 * syncInterval s))"
      using b(4) aw fa by (cases r) auto
    from w ord ak bk iv have "?goal (a @ b)" by simp
    then show ?thesis ..
  qed
qed

lemma cycle_tail_case_prod:
  "(\<And>a b. cycle_tail k a0 (f a b)) \<Longrightarrow> cycle_tail k a0 (case p of (a, b) \<Rightarrow> f a b)"
  by (cases p) simp

subsection \<open>The steps of a cycle\<close>

lemma does_reportState: "P (SetDetailedState i d) \<Longrightarrow> (\<And>i. P (SetDetailedState i d)) \<Longrightarrow> does P (reportState d)"
  unfolding reportState_def by (intro does_leaf) simp_all

lemma does_quiet_reportState: "does (\<lambda>e. \<not> is_transfer e) (reportState d)"
  by (rule does_reportState) simp_all

lemma does_makeScratchDir: "does (\<lambda>e. \<not> is_transfer e) (makeScratchDir w)"
  unfolding makeScratchDir_def by (intro does_leaf) (simp_all add: close_kind_quiet)

lemma does_logSyncError: "does (\<lambda>e. \<not> is_transfer e) (logSyncError w mesg)"
  unfolding logSyncError_def by (intro does_leaf) (simp_all add: close_kind_quiet)

lemma does_whiteoutLoop: "does (\<lambda>e. \<not> is_transfer e) (whiteoutLoop w u mt ks acc)"
proof (induction ks arbitrary: acc)
  case Nil
  then show ?case by (simp add: does_ret)
next
  case (Cons k ks)
  obtain cs wh where acc: "acc = (cs, wh)" by (cases acc)
  show ?case unfolding acc
    by (simp add: Let_def split: option.split)
       (intro conjI impI allI does_leaf Cons; simp add: close_kind_quiet)
qed

lemma does_getComputeState: "does (\<lambda>e. \<not> is_transfer e) (getComputeState w)"
  unfolding getComputeState_def
  by (intro does_leaf does_whiteoutLoop) (simp_all add: close_kind_quiet)

lemma does_sendFiles: "does (\<lambda>e. \<not> is_remove e \<and> \<not> is_tar_get e) (sendFiles w files)"
  unfolding sendFiles_def tar_send_def
  by (intro does_leaf) (simp_all add: close_kind_quiet)

lemma does_receiveFiles: "does (\<lambda>e. \<not> is_remove e \<and> \<not> is_tar_send e) (receiveFiles w p)"
  unfolding receiveFiles_def tar_get_def
  by (intro does_leaf) (simp_all add: close_kind_quiet)

lemma keep_newer_no_work:
  "''--delay-directory-restore'' \<notin> set (extractArgs (this_tar t
      \<lparr>createArgs = c, extractArgs = [''--keep-newer-files'', ''-x''], HOME = h\<rparr>))"
  by (cases t) (simp_all add: alter_def)

lemma does_updateReadTracking:
  "does (\<lambda>e. \<not> is_remove e \<and> \<not> is_tar_send e \<and> \<not> is_work e) (updateReadTracking w)"
  unfolding updateReadTracking_def tar_get_def
  by (intro does_leaf does_reportState) (simp_all add: close_kind_quiet keep_newer_no_work)

lemma seq_Inr:
  assumes "seq m f s = (Inr y, s')"
  obtains x s1 where "m s = (Inr x, s1)" "f x s1 = (Inr y, s')"
proof -
  obtain r1 s1 where 1: "m s = (r1, s1)" by (cases "m s")
  with assms obtain x where "r1 = Inr x" by (cases r1) (simp_all add: seq_apply)
  with 1 assms that show thesis by (simp add: seq_apply)
qed

lemma sendFiles_work:
  assumes "sendFiles w files s = (Inr x, s')"
  shows "list_ex is_work (new_events s s')"
proof -
  let ?target = "join [scratch s, ''copy-to-project'']"
  from assms have run: "seq (call w 559 (OpenW ?target) (fs_outcome (w_open w ?target)))
         (\<lambda>_. seq (call w 560 (FileWrite (join_with [CHR 0x00] files)) (fs_outcome (w_fileWrite w)))
         (\<lambda>_. seq (call w 561 FileClose (fs_outcome (w_fileClose w)))
         (\<lambda>_. tar_send w 571
                 \<lparr> createArgs = [''-c'', ''--null'', ''--no-recursion'', ''--verbatim-files-from'',
                                  ''--files-from'', ?target],
                   extractArgs = [''--delay-directory-restore'', ''-x''],
                   HOME = None \<rparr>))) s = (Inr x, s')"
    by (simp add: sendFiles_def with_this_apply Let_def)
  from run obtain x1 s1 where 1: "call w 559 (OpenW ?target) (fs_outcome (w_open w ?target)) s = (Inr x1, s1)"
    and r1: "seq (call w 560 (FileWrite (join_with [CHR 0x00] files)) (fs_outcome (w_fileWrite w)))
         (\<lambda>_. seq (call w 561 FileClose (fs_outcome (w_fileClose w)))
         (\<lambda>_. tar_send w 571
                 \<lparr> createArgs = [''-c'', ''--null'', ''--no-recursion'', ''--verbatim-files-from'',
                                  ''--files-from'', ?target],
                   extractArgs = [''--delay-directory-restore'', ''-x''],
                   HOME = None \<rparr>)) s1 = (Inr x, s')"
    by (rule seq_Inr)
  from r1 obtain x2 s2 where 2: "call w 560 (FileWrite (join_with [CHR 0x00] files)) (fs_outcome (w_fileWrite w)) s1 = (Inr x2, s2)"
    and r2: "seq (call w 561 FileClose (fs_outcome (w_fileClose w)))
         (\<lambda>_. tar_send w 571
                 \<lparr> createArgs = [''-c'', ''--null'', ''--no-recursion'', ''--verbatim-files-from'',
                                  ''--files-from'', ?target],
                   extractArgs = [''--delay-directory-restore'', ''-x''],
                   HOME = None \<rparr>) s2 = (Inr x, s')"
    by (rule seq_Inr)
  from r2 obtain x3 s3 where 3: "call w 561 FileClose (fs_outcome (w_fileClose w)) s2 = (Inr x3, s3)"
    and r3: "tar_send w 571
                 \<lparr> createArgs = [''-c'', ''--null'', ''--no-recursion'', ''--verbatim-files-from'',
                                  ''--files-from'', ?target],
                   extractArgs = [''--delay-directory-restore'', ''-x''],
                   HOME = None \<rparr> s3 = (Inr x, s')"
    by (rule seq_Inr)
  from 1 obtain c1 where c1: "step s s1 (OpenW ?target # c1)" by (rule call_run) simp_all
  from 2 obtain c2 where c2: "step s1 s2 (FileWrite (join_with [CHR 0x00] files) # c2)"
    by (rule call_run) simp_all
  from 3 obtain c3 where c3: "step s2 s3 (FileClose # c3)" by (rule call_run) simp_all
  from r3 obtain a c4 where c4: "step s3 s' (TarSend a # c4)"
    unfolding tar_send_def with_this_apply by (rule call_run) simp_all
  from step_trans[OF step_trans[OF step_trans[OF c1 c2] c3] c4]
  show ?thesis by (auto dest!: step_fields(18))
qed

lemma receiveFiles_work:
  assumes "receiveFiles w p s = (r, s')"
  shows "list_ex is_work (new_events s s')"
proof -
  let ?a = "this_tar (tar s) \<lparr> createArgs = [''-c'', ''--null'', ''--no-recursion'',
      ''--verbatim-files-from'', ''--files-from'', p],
      extractArgs = [''--delay-directory-restore'', ''-x''], HOME = None \<rparr>"
  from assms obtain c where c: "step s s' (TarGet ?a # c)"
    unfolding receiveFiles_def tar_get_def with_this_apply by (rule call_run) simp_all
  have "is_work (TarGet ?a)" by (cases "tar s") (simp_all add: alter_def)
  with step_fields(18)[OF c] show ?thesis by simp
qed

lemma transfer_stepI:
  assumes "\<And>s r s'. m s = (r, s') \<Longrightarrow> \<exists>evs. step s s' evs
    \<and> list_all (\<lambda>e. phase (upper s) e = 0 \<or> phase (upper s) e = k) evs
    \<and> (\<forall>a. r = Inr a \<longrightarrow> (a \<longleftrightarrow> a0 \<or> list_ex is_work evs))"
  shows "transfer_step k a0 m"
  unfolding transfer_step_def by (intro allI impI) (rule assms)

lemma transfer_step_ret: "transfer_step k a0 (ret a0)"
proof (rule transfer_stepI)
  fix s r s' assume "ret a0 s = (r, s')"
  then have "r = Inr a0" "s' = s" by (simp_all add: ret_apply)
  then show "\<exists>evs. step s s' evs
    \<and> list_all (\<lambda>e. phase (upper s) e = 0 \<or> phase (upper s) e = k) evs
    \<and> (\<forall>a. r = Inr a \<longrightarrow> (a \<longleftrightarrow> a0 \<or> list_ex is_work evs))"
    by (intro exI[of _ "[]"]) (simp add: step_refl)
qed

lemma transfer_step_if:
  "(b \<Longrightarrow> transfer_step k a0 m1) \<Longrightarrow> (\<not> b \<Longrightarrow> transfer_step k a0 m2)
   \<Longrightarrow> transfer_step k a0 (if b then m1 else m2)"
  by simp

lemma transfer_step_case_option:
  "transfer_step k a0 m1 \<Longrightarrow> (\<And>x. transfer_step k a0 (m2 x))
   \<Longrightarrow> transfer_step k a0 (case v of None \<Rightarrow> m1 | Some x \<Rightarrow> m2 x)"
  by (cases v) simp_all

lemma transfer_step_call:
  assumes "\<And>s. phase (upper s) (ev s) = k" "\<And>s. is_work (ev s)" "\<And>s. \<not> fusermount_call (ev s)"
  shows "transfer_step k a0 (seq (with_this (\<lambda>this. call w l (ev this) (outcome (out this))))
                                 (\<lambda>_. ret True))"
proof (rule transfer_stepI)
  fix s r s'
  assume run: "seq (with_this (\<lambda>this. call w l (ev this) (outcome (out this)))) (\<lambda>_. ret True) s = (r, s')"
  obtain r1 s1 where 1: "call w l (ev s) (outcome (out s)) s = (r1, s1)"
    by (cases "call w l (ev s) (outcome (out s)) s")
  from 1 obtain c where c: "step s s1 (ev s # c)" "list_all close_kind c"
    by (rule call_run) (simp_all add: assms)
  from run 1 have s': "s' = s1" and r: "\<And>a. r = Inr a \<Longrightarrow> a"
    by (cases r1; simp add: seq_apply with_this_apply ret_apply; fastforce)+
  have "list_all (\<lambda>e. phase (upper s) e = 0 \<or> phase (upper s) e = k) (ev s # c)"
    using c(2) assms(1) by (auto simp: list_all_iff close_kind_quiet)
  moreover have "list_ex is_work (ev s # c)" using assms(2) by simp
  ultimately show "\<exists>evs. step s s' evs
    \<and> list_all (\<lambda>e. phase (upper s) e = 0 \<or> phase (upper s) e = k) evs
    \<and> (\<forall>a. r = Inr a \<longrightarrow> (a \<longleftrightarrow> a0 \<or> list_ex is_work evs))"
    using c(1) s' r by (intro exI[of _ "ev s # c"]) auto
qed

lemma transfer_step_reported:
  assumes m: "does P m" and P: "\<And>U e. P e \<Longrightarrow> phase U e = 0 \<or> phase U e = k"
    and work: "\<And>s x s'. m s = (Inr x, s') \<Longrightarrow> list_ex is_work (new_events s s')"
  shows "transfer_step k a0 (seq (reportState d) (\<lambda>_. seq m (\<lambda>_. ret True)))"
proof (rule transfer_stepI)
  fix s r s'
  assume run: "seq (reportState d) (\<lambda>_. seq m (\<lambda>_. ret True)) s = (r, s')"
  let ?ev = "SetDetailedState (compute_server_id s) d"
  let ?s0 = "trace_update (\<lambda>t. t @ [?ev]) s"
  obtain r1 s1 where 1: "m ?s0 = (r1, s1)" by (cases "m ?s0")
  from doesD[OF m 1] obtain b where b: "step ?s0 s1 b" "list_all P b" by blast
  have a: "step s ?s0 [?ev]" by (rule step_one) simp
  have st: "step s s1 (?ev # b)" using step_trans[OF a b(1)] by simp
  from run 1 have s': "s' = s1"
    by (cases r1) (simp_all add: seq_apply reportState_apply ret_apply)
  have r: "list_ex is_work b" if "r = Inr x" for x
  proof -
    from run 1 that obtain y where "r1 = Inr y"
      by (cases r1) (simp_all add: seq_apply reportState_apply ret_apply)
    with 1 work[of ?s0 y s1] step_fields(18)[OF b(1)] show ?thesis by simp
  qed
  have t: "a" if "r = Inr a" for a
    using run 1 that by (cases r1) (auto simp: seq_apply reportState_apply ret_apply)
  have "list_all (\<lambda>e. phase (upper s) e = 0 \<or> phase (upper s) e = k) (?ev # b)"
    using b(2) P by (auto simp: list_all_iff)
  then show "\<exists>evs. step s s' evs
    \<and> list_all (\<lambda>e. phase (upper s) e = 0 \<or> phase (upper s) e = k) evs
    \<and> (\<forall>a. r = Inr a \<longrightarrow> (a \<longleftrightarrow> a0 \<or> list_ex is_work evs))"
    using st s' r t by (intro exI[of _ "?ev # b"]) auto
qed

lemma phase_send: "\<not> is_remove e \<and> \<not> is_tar_get e \<Longrightarrow> phase U e = 0 \<or> phase U e = 3"
  by (cases e) simp_all

lemma phase_get: "\<not> is_remove e \<and> \<not> is_tar_send e \<Longrightarrow> phase U e = 0 \<or> phase U e = 4"
  by (cases e) simp_all

lemmas transfer_step_intros = transfer_step_if transfer_step_case_option transfer_step_ret
  transfer_step_call
  transfer_step_reported[OF does_sendFiles phase_send sendFiles_work]
  transfer_step_reported[OF does_receiveFiles phase_get receiveFiles_work]

text \<open>The end of a cycle: the interval is set, then the read tracking is updated, which
  never throws.\<close>

lemma cycle_tail_final:
  "cycle_tail 4 a (seq (modify (\<lambda>this. this\<lparr>syncInterval :=
       (if a then syncIntervalMin this else min (syncIntervalMax this) (1.3 * syncInterval this))\<rparr>))
     (\<lambda>_. updateReadTracking w))"
proof (rule cycle_tailI)
  fix s :: SyncFS and r :: "error + unit" and s' :: SyncFS
  let ?x = "if a then syncIntervalMin s else min (syncIntervalMax s) (1.3 * syncInterval s)"
  let ?s1 = "s\<lparr>syncInterval := ?x\<rparr>"
  assume "seq (modify (\<lambda>this. this\<lparr>syncInterval :=
       (if a then syncIntervalMin this else min (syncIntervalMax this) (1.3 * syncInterval this))\<rparr>))
     (\<lambda>_. updateReadTracking w) s = (r, s')"
  then have run: "updateReadTracking w ?s1 = (r, s')" by (simp add: seq_apply modify_apply)
  from returnsD[OF returns_updateReadTracking run] obtain u where r: "r = Inr u" by blast
  from doesD[OF does_updateReadTracking run] obtain b where b: "step ?s1 s' b"
    "list_all (\<lambda>e. \<not> is_remove e \<and> \<not> is_tar_send e \<and> \<not> is_work e) b" by blast
  have w: "wstep s s' b" unfolding wstep_def using b(1) by blast
  have nw: "\<not> list_ex is_work b" using b(2) by (auto simp: list_all_iff list_ex_iff)
  have ph: "list_all (\<lambda>e. phase (upper s) e = 0 \<or> phase (upper s) e = 4) b"
    using b(2) phase_get by (auto simp: list_all_iff)
  then have ph': "list_all (\<lambda>e. phase (upper s) e = 0 \<or> 4 \<le> phase (upper s) e) b"
    by (auto simp: list_all_iff)
  have "syncInterval s' = ?x" using step_fields(7)[OF b(1)] by simp
  with w nw ph' in_order_same[OF ph] r
  show "\<exists>evs. wstep s s' evs \<and> in_order (upper s) evs
        \<and> list_all (\<lambda>e. phase (upper s) e = 0 \<or> 4 \<le> phase (upper s) e) evs
        \<and> (case r of Inl e \<Rightarrow> syncInterval s' = syncInterval s
            | Inr _ \<Rightarrow> syncInterval s' =
                (if a \<or> list_ex is_work evs then syncIntervalMin s
                 else min (syncIntervalMax s) (1.3 * syncInterval s)))"
    by (intro exI[of _ b]) auto
qed

lemma upper_not_unionfs: "U \<noteq> join [U, UNIONFS]"
  by (simp add: join_def UNIONFS_def)

lemma cycle_tail_doSync_apply: "cycle_tail 1 False (doSync_apply w whiteouts resp)"
  unfolding doSync_apply_def
  apply (rule cycle_tail_seq[where k'=2])
    apply (intro transfer_step_intros; simp)
   apply (rule cycle_tail_seq[where k'=3])
     apply (intro transfer_step_intros; simp add: upper_not_unionfs)
    apply (rule cycle_tail_seq[where k'=4])
      apply (intro transfer_step_intros; simp)
     apply (rule cycle_tail_seq[where k'=4])
       apply (intro transfer_step_intros; simp)
      apply (rule cycle_tail_final)
     apply simp_all
  done

lemma cycle_tail_doSync: "cycle_tail 1 False (doSync w)"
  unfolding doSync_def
  by (intro cycle_tail_prefix cycle_tail_case_prod cycle_tail_doSync_apply
        does_quiet_reportState does_makeScratchDir does_getComputeState does_leaf)
     (simp_all add: close_kind_quiet)

subsection \<open>What \<open>sync\<close> does\<close>

lemma sync_finally_apply:
  "sync_finally t =
     (Inr (), if state t \<noteq> Closed
              then t\<lparr>state := Ready,
                     trace := trace t @ [SetDetailedState (compute_server_id t)
                        \<lparr> r_state = ''ready'', r_extra = None,
                          r_timeout = Some (3 + syncInterval t), r_progress = Some 100 \<rparr>]\<rparr>
              else t)"
  by (cases t) (simp add: sync_finally_def prog_apply)

lemma failure_message_Error: "failure_message w n (Error m) = ret (summary n m)"
  by (rule ext) (simp add: failure_message_def summary_def slice_message_Error seq_apply ret_apply)

lemma failure_message_Thrown:
  "failure_message w n (Thrown v) = raise (Error (w_typeError w (summary_line n)))"
  by (rule ext)
     (simp add: failure_message_def summary_line_def slice_message_Thrown seq_apply raise_apply)

lemma sync_catch_apply:
  "sync_catch w (Error m) t =
     (Inl (Error (summary (numFails t + 1) m)),
      interleave_close w 410
        (t\<lparr>numFails := numFails t + 1,
           trace := trace t @ [SetDetailedState (compute_server_id t)
                      \<lparr> r_state = ''error'', r_extra = Some (summary (numFails t + 1) m),
                        r_timeout = Some 60, r_progress = Some 0 \<rparr>,
                    WriteFile (error_txt t) (Text (summary (numFails t + 1) m))]\<rparr>))"
  by (cases t; cases "w_writeFile w (error_txt t)")
     (simp_all add: sync_catch_def logSyncError_def failure_message_Error prog_apply)

lemma sync_catch_Thrown:
  "sync_catch w (Thrown v) t =
     (Inl (Error (w_typeError w (summary_line (numFails t + 1)))), t\<lparr>numFails := numFails t + 1\<rparr>)"
  by (cases t) (simp add: sync_catch_def failure_message_Thrown prog_apply)

lemma sync_catch_raises: "\<exists>m. fst (sync_catch w err t) = Inl (Error m)"
  by (cases err) (simp_all add: sync_catch_apply sync_catch_Thrown)

lemma sync_not_ready:
  "state s \<noteq> Ready \<Longrightarrow> \<exists>e. sync w s = (Inl e, s)"
  by (simp add: sync_def with_this_apply raise_apply)

lemma sync_ready:
  "state s = Ready \<Longrightarrow>
   sync w s = (case doSync w (s\<lparr>state := Sync\<rparr>) of
                 (Inr _, s1) \<Rightarrow> (Inr (), snd (sync_finally (s1\<lparr>numFails := 0\<rparr>)))
               | (Inl err, s1) \<Rightarrow> (fst (sync_catch w err s1),
                                    snd (sync_finally (snd (sync_catch w err s1)))))"
proof -
  assume ready: "state s = Ready"
  obtain r1 s1 where 1: "doSync w (s\<lparr>state := Sync\<rparr>) = (r1, s1)"
    by (cases "doSync w (s\<lparr>state := Sync\<rparr>)")
  show ?thesis
  proof (cases r1)
    case (Inr u)
    with ready 1 show ?thesis
      by (simp add: sync_def with_this_apply try_finally_apply try_catch_apply seq_apply
          modify_apply sync_finally_apply)
  next
    case (Inl err)
    obtain m where m: "fst (sync_catch w err s1) = Inl (Error m)"
      using sync_catch_raises[of w err s1] by blast
    obtain rc sc where c: "sync_catch w err s1 = (rc, sc)" by (cases "sync_catch w err s1")
    with m have rc: "rc = Inl (Error m)" by simp
    from ready 1 Inl show ?thesis
      by (simp add: sync_def with_this_apply try_finally_apply try_catch_apply seq_apply
          modify_apply sync_finally_apply c rc)
  qed
qed

lemma in_order_quiet:
  assumes "in_order U a" "list_all (\<lambda>e. phase U e = 0) b"
  shows "in_order U (a @ b)"
proof -
  from assms(2) have "filter (\<lambda>n. 0 < n) (map (phase U) b) = []"
    by (auto simp: list_all_iff filter_empty_conv)
  with assms(1) show ?thesis by (simp add: in_order_def)
qed

lemma stepE:
  assumes "step s s' evs"
  obtains st tmo where
    "s' = s\<lparr>state := st, timeout := tmo, trace := trace s @ evs\<rparr>"
    "list_ex fusermount_call evs \<longrightarrow> st = Closed"
    "st \<noteq> state s \<longrightarrow> st = Closed \<and> list_ex fusermount_call evs"
  using assms unfolding step_def by auto

lemma finally_after:
  "snd (sync_finally (s\<lparr>syncInterval := si, state := (if b then Closed else Sync), timeout := t,
                         numFails := n, trace := tr\<rparr>))
   = s\<lparr>syncInterval := si, state := (if b then Closed else Ready), timeout := t, numFails := n,
       trace := tr @ (if b then [] else [SetDetailedState (compute_server_id s)
                        \<lparr> r_state = ''ready'', r_extra = None,
                          r_timeout = Some (3 + si), r_progress = Some 100 \<rparr>])\<rparr>"
  by (cases b) (simp_all add: sync_finally_apply)

text \<open>A call of \<open>sync\<close> on a ready object, in full: what it adds to the trace, and the
  state, the counter and the interval it leaves.\<close>

lemma sync_summary:
  assumes ready: "state s = Ready" and run: "sync w s = (r, s')"
  shows "\<exists>evs si tmo.
     s' = s\<lparr>syncInterval := si, state := (if list_ex fusermount_call evs then Closed else Ready),
            timeout := tmo, numFails := (case r of Inl _ \<Rightarrow> numFails s + 1 | Inr _ \<Rightarrow> 0),
            trace := trace s @ evs\<rparr>
     \<and> in_order (upper s) evs
     \<and> (case r of
           Inr _ \<Rightarrow> si = (if list_ex is_work evs then syncIntervalMin s
                          else min (syncIntervalMax s) (1.3 * syncInterval s))
         | Inl e \<Rightarrow> si = syncInterval s
             \<and> (\<exists>err. fst (doSync w (s\<lparr>state := Sync\<rparr>)) = Inl err
                  \<and> (case err of
                        Error m \<Rightarrow>
                          e = Error (summary (numFails s + 1) m)
                          \<and> SetDetailedState (compute_server_id s)
                               \<lparr> r_state = ''error'', r_extra = Some (summary (numFails s + 1) m),
                                 r_timeout = Some 60, r_progress = Some 0 \<rparr> \<in> set evs
                          \<and> WriteFile (error_txt s) (Text (summary (numFails s + 1) m)) \<in> set evs
                      | Thrown v \<Rightarrow>
                          e = Error (w_typeError w (summary_line (numFails s + 1)))
                          \<and> evs = new_events (s\<lparr>state := Sync\<rparr>)
                                    (snd (doSync w (s\<lparr>state := Sync\<rparr>)))
                                  @ (if list_ex fusermount_call evs then []
                                     else [SetDetailedState (compute_server_id s)
                                             \<lparr> r_state = ''ready'', r_extra = None,
                                               r_timeout = Some (3 + syncInterval s),
                                               r_progress = Some 100 \<rparr>]))))"
proof -
  let ?s0 = "s\<lparr>state := Sync\<rparr>"
  obtain r1 s1 where 1: "doSync w ?s0 = (r1, s1)" by (cases "doSync w ?s0")
  from cycle_tailD[OF cycle_tail_doSync 1] obtain e1 where e1: "wstep ?s0 s1 e1"
    and o1: "in_order (upper ?s0) e1"
    and i1: "case r1 of Inl e \<Rightarrow> syncInterval s1 = syncInterval ?s0
     | Inr _ \<Rightarrow> syncInterval s1 =
         (if False \<or> list_ex is_work e1 then syncIntervalMin ?s0
          else min (syncIntervalMax ?s0) (1.3 * syncInterval ?s0))" by (elim exE conjE)
  from e1 obtain st1 t1 si1 where
    s1': "s1 = ?s0\<lparr>syncInterval := si1, state := st1, timeout := t1, trace := trace ?s0 @ e1\<rparr>"
    and c1: "list_ex fusermount_call e1 \<longrightarrow> st1 = Closed"
      "st1 \<noteq> state ?s0 \<longrightarrow> st1 = Closed \<and> list_ex fusermount_call e1"
    by (rule wstepE)
  have st1: "st1 = (if list_ex fusermount_call e1 then Closed else Sync)"
    using c1 by auto
  have s1: "s1 = s\<lparr>syncInterval := si1, state := (if list_ex fusermount_call e1 then Closed else Sync),
                    timeout := t1, trace := trace s @ e1\<rparr>"
    unfolding s1' st1 by simp
  have si1: "syncInterval s1 = si1" unfolding s1 by simp
  have up: "upper ?s0 = upper s" by simp
  show ?thesis
  proof (cases r1)
    case (Inr u)
    let ?fin = "[SetDetailedState (compute_server_id s)
                        \<lparr> r_state = ''ready'', r_extra = None,
                          r_timeout = Some (3 + si1), r_progress = Some 100 \<rparr>]"
    let ?evs = "e1 @ (if list_ex fusermount_call e1 then [] else ?fin)"
    from run ready 1 Inr have r: "r = Inr ()" and s': "s' = snd (sync_finally (s1\<lparr>numFails := 0\<rparr>))"
      by (simp_all add: sync_ready)
    have "s1\<lparr>numFails := 0\<rparr> = s\<lparr>syncInterval := si1,
             state := (if list_ex fusermount_call e1 then Closed else Sync),
             timeout := t1, numFails := 0, trace := trace s @ e1\<rparr>"
      unfolding s1 by simp
    then have "s' = s\<lparr>syncInterval := si1,
             state := (if list_ex fusermount_call e1 then Closed else Ready),
             timeout := t1, numFails := 0, trace := (trace s @ e1) @ (if list_ex fusermount_call e1 then [] else ?fin)\<rparr>"
      unfolding s' by (simp only: finally_after)
    moreover have "list_ex fusermount_call ?evs = list_ex fusermount_call e1" by simp
    ultimately have eq: "s' = s\<lparr>syncInterval := si1,
                     state := (if list_ex fusermount_call ?evs then Closed else Ready),
                     timeout := t1, numFails := 0, trace := trace s @ ?evs\<rparr>"
      by (simp only: append_assoc)
    have q: "list_all (\<lambda>e. phase (upper s) e = 0) (if list_ex fusermount_call e1 then [] else ?fin)"
      by simp
    have ord: "in_order (upper s) ?evs"
      using in_order_quiet[OF _ q, of e1] o1 up by simp
    have "list_ex is_work ?evs = list_ex is_work e1" by simp
    then have iv: "si1 = (if list_ex is_work ?evs then syncIntervalMin s
                     else min (syncIntervalMax s) (1.3 * syncInterval s))"
      using i1 Inr si1 by simp
    show ?thesis
      apply (rule exI[of _ ?evs], rule exI[of _ si1], rule exI[of _ t1])
      using eq ord iv r apply simp
      done
  next
    case Inl1: (Inl err)
    let ?b1 = "list_ex fusermount_call e1"
    let ?fin = "[SetDetailedState (compute_server_id s)
                        \<lparr> r_state = ''ready'', r_extra = None,
                          r_timeout = Some (3 + si1), r_progress = Some 100 \<rparr>]"
    have nf: "numFails s1 = numFails s" unfolding s1 by simp
    have iv: "si1 = syncInterval s" using i1 Inl1 si1 by simp
    have d: "fst (doSync w ?s0) = Inl err" using 1 Inl1 by simp
    from run ready 1 Inl1 have r: "r = fst (sync_catch w err s1)"
      and s': "s' = snd (sync_finally (snd (sync_catch w err s1)))"
      by (simp_all add: sync_ready)
    show ?thesis
    proof (cases err)
      case (Error m)
      let ?msg = "summary (numFails s + 1) m"
      let ?rep = "SetDetailedState (compute_server_id s)
                  \<lparr> r_state = ''error'', r_extra = Some ?msg, r_timeout = Some 60, r_progress = Some 0 \<rparr>"
      let ?wr = "WriteFile (error_txt s) (Text ?msg)"
      let ?t = "s\<lparr>syncInterval := si1, state := (if ?b1 then Closed else Sync),
                    timeout := t1, numFails := numFails s + 1, trace := trace s @ e1 @ [?rep, ?wr]\<rparr>"
      have catch: "snd (sync_catch w err s1) = interleave_close w 410 ?t"
        unfolding Error sync_catch_apply snd_conv s1 by simp
      from step_interleave[of ?t w 410] obtain c where c: "step ?t (interleave_close w 410 ?t) c"
        and ck: "list_all close_kind c" by (elim exE conjE)
      from c obtain st2 t2 where
        t2: "interleave_close w 410 ?t = ?t\<lparr>state := st2, timeout := t2, trace := trace ?t @ c\<rparr>"
        and c2: "list_ex fusermount_call c \<longrightarrow> st2 = Closed"
          "st2 \<noteq> state ?t \<longrightarrow> st2 = Closed \<and> list_ex fusermount_call c"
        by (rule stepE)
      have stt: "state ?t = (if ?b1 then Closed else Sync)" by simp
      let ?b2 = "list_ex fusermount_call (e1 @ [?rep, ?wr] @ c)"
      have b2: "?b2 = (?b1 \<or> list_ex fusermount_call c)" by simp
      have st2: "st2 = (if ?b2 then Closed else Sync)"
        unfolding b2 using c2 stt by (cases ?b1; cases "list_ex fusermount_call c") auto
      have t3: "interleave_close w 410 ?t = s\<lparr>syncInterval := si1, state := (if ?b2 then Closed else Sync),
                    timeout := t2, numFails := numFails s + 1, trace := trace s @ e1 @ [?rep, ?wr] @ c\<rparr>"
        unfolding t2 st2 by simp
      let ?evs = "(e1 @ [?rep, ?wr] @ c) @ (if ?b2 then [] else ?fin)"
      have r': "r = Inl (Error ?msg)" unfolding r Error sync_catch_apply nf by simp
      have "s' = s\<lparr>syncInterval := si1, state := (if ?b2 then Closed else Ready),
                    timeout := t2, numFails := numFails s + 1,
                    trace := (trace s @ e1 @ [?rep, ?wr] @ c) @ (if ?b2 then [] else ?fin)\<rparr>"
        unfolding s' catch t3 by (simp only: finally_after)
      moreover have "list_ex fusermount_call ?evs = ?b2" by simp
      ultimately have eq: "s' = s\<lparr>syncInterval := si1,
                     state := (if list_ex fusermount_call ?evs then Closed else Ready),
                     timeout := t2, numFails := numFails s + 1, trace := trace s @ ?evs\<rparr>"
        by (simp only: append_assoc)
      have q: "list_all (\<lambda>e. phase (upper s) e = 0) ([?rep, ?wr] @ c @ (if ?b2 then [] else ?fin))"
        using ck by (auto simp: list_all_iff close_kind_quiet)
      have ord: "in_order (upper s) ?evs"
        using in_order_quiet[OF _ q, of e1] o1 up by simp
      have mem: "?rep \<in> set ?evs" "?wr \<in> set ?evs" by simp_all
      have d': "fst (doSync w ?s0) = Inl (Error m)" using d Error by simp
      show ?thesis
        apply (rule exI[of _ ?evs], rule exI[of _ si1], rule exI[of _ t2])
        using eq ord iv r' d' mem apply simp
        done
    next
      case (Thrown v)
      let ?evs = "e1 @ (if ?b1 then [] else ?fin)"
      have r': "r = Inl (Error (w_typeError w (summary_line (numFails s + 1))))"
        unfolding r Thrown sync_catch_Thrown nf by simp
      have "snd (sync_catch w err s1) = s\<lparr>syncInterval := si1,
             state := (if ?b1 then Closed else Sync),
             timeout := t1, numFails := numFails s + 1, trace := trace s @ e1\<rparr>"
        unfolding Thrown sync_catch_Thrown snd_conv s1 by simp
      then have "s' = s\<lparr>syncInterval := si1, state := (if ?b1 then Closed else Ready),
             timeout := t1, numFails := numFails s + 1,
             trace := (trace s @ e1) @ (if ?b1 then [] else ?fin)\<rparr>"
        unfolding s' by (simp only: finally_after)
      moreover have fm: "list_ex fusermount_call ?evs = ?b1" by simp
      ultimately have eq: "s' = s\<lparr>syncInterval := si1,
                     state := (if list_ex fusermount_call ?evs then Closed else Ready),
                     timeout := t1, numFails := numFails s + 1, trace := trace s @ ?evs\<rparr>"
        by (simp only: append_assoc)
      have q: "list_all (\<lambda>e. phase (upper s) e = 0) (if ?b1 then [] else ?fin)"
        by simp
      have ord: "in_order (upper s) ?evs"
        using in_order_quiet[OF _ q, of e1] o1 up by simp
      have ne: "new_events ?s0 (snd (doSync w ?s0)) = e1"
        unfolding 1 snd_conv s1 by (simp add: new_events_def)
      have d': "fst (doSync w ?s0) = Inl (Thrown v)" using d Thrown by simp
      have shape: "?evs = new_events ?s0 (snd (doSync w ?s0))
                      @ (if list_ex fusermount_call ?evs then []
                         else [SetDetailedState (compute_server_id s)
                                 \<lparr> r_state = ''ready'', r_extra = None,
                                   r_timeout = Some (3 + syncInterval s),
                                   r_progress = Some 100 \<rparr>])"
        unfolding ne fm iv by simp
      show ?thesis
        apply (rule exI[of _ ?evs], rule exI[of _ si1], rule exI[of _ t1])
        using eq ord iv r' d' shape apply simp
        done
    qed
  qed
qed

subsection \<open>Closed stays closed\<close>

lemma keeps_closedI:
  "(\<And>s r s'. m s = (r, s') \<Longrightarrow> state s = Closed \<Longrightarrow> state s' = Closed) \<Longrightarrow> keeps_closed m"
  unfolding keeps_closed_def by blast

lemma keeps_closedD: "keeps_closed m \<Longrightarrow> m s = (r, s') \<Longrightarrow> state s = Closed \<Longrightarrow> state s' = Closed"
  unfolding keeps_closed_def by blast

lemma keeps_closed_does: "does P m \<Longrightarrow> keeps_closed m"
  by (rule keeps_closedI) (auto dest!: doesD intro: step_closed)

lemma keeps_closed_ret: "keeps_closed (ret x)"
  by (rule keeps_closedI) (simp add: ret_apply)

lemma keeps_closed_modify: "(\<And>s. state (g s) = state s) \<Longrightarrow> keeps_closed (modify g)"
  by (rule keeps_closedI) (auto simp: modify_apply)

lemma keeps_closed_emit: "keeps_closed (emit ev)"
  by (rule keeps_closedI) (auto simp: emit_apply)

lemma keeps_closed_seq: "keeps_closed m \<Longrightarrow> (\<And>x. keeps_closed (f x)) \<Longrightarrow> keeps_closed (seq m f)"
proof (rule keeps_closedI)
  fix s r s'
  assume m: "keeps_closed m" and f: "\<And>x. keeps_closed (f x)"
    and run: "seq m f s = (r, s')" and c: "state s = Closed"
  obtain r1 s1 where 1: "m s = (r1, s1)" by (cases "m s")
  from keeps_closedD[OF m 1 c] have c1: "state s1 = Closed" .
  show "state s' = Closed"
  proof (cases r1)
    case (Inl e)
    with run 1 c1 show ?thesis by (simp add: seq_apply)
  next
    case (Inr x)
    with run 1 have "f x s1 = (r, s')" by (simp add: seq_apply)
    from keeps_closedD[OF f this c1] show ?thesis .
  qed
qed

lemma keeps_closed_try_catch:
  "keeps_closed m \<Longrightarrow> (\<And>e. keeps_closed (h e)) \<Longrightarrow> keeps_closed (try_catch m h)"
proof (rule keeps_closedI)
  fix s r s'
  assume m: "keeps_closed m" and h: "\<And>e. keeps_closed (h e)"
    and run: "try_catch m h s = (r, s')" and c: "state s = Closed"
  obtain r1 s1 where 1: "m s = (r1, s1)" by (cases "m s")
  from keeps_closedD[OF m 1 c] have c1: "state s1 = Closed" .
  show "state s' = Closed"
  proof (cases r1)
    case (Inr x)
    with run 1 c1 show ?thesis by (simp add: try_catch_apply)
  next
    case (Inl e)
    with run 1 have "h e s1 = (r, s')" by (simp add: try_catch_apply)
    from keeps_closedD[OF h this c1] show ?thesis .
  qed
qed

lemma keeps_closed_with_this: "(\<And>this. keeps_closed (F this)) \<Longrightarrow> keeps_closed (with_this F)"
  by (auto simp: keeps_closed_def with_this_def)

lemma keeps_closed_if:
  "(b \<Longrightarrow> keeps_closed m1) \<Longrightarrow> (\<not> b \<Longrightarrow> keeps_closed m2) \<Longrightarrow> keeps_closed (if b then m1 else m2)"
  by simp

lemma keeps_closed_let: "keeps_closed (f v) \<Longrightarrow> keeps_closed (let x = v in f x)"
  by simp

lemma keeps_closed_case_option:
  "keeps_closed m1 \<Longrightarrow> (\<And>x. keeps_closed (m2 x)) \<Longrightarrow> keeps_closed (case v of None \<Rightarrow> m1 | Some x \<Rightarrow> m2 x)"
  by (cases v) simp_all

lemma keeps_closed_call: "\<not> fusermount_call ev \<Longrightarrow> keeps_closed (call w l ev out)"
  by (rule keeps_closed_does[of "\<lambda>_. True"], rule does_call) simp_all

lemma keeps_closed_raise: "keeps_closed (raise e)"
  by (rule keeps_closedI) (simp add: raise_apply)

lemma keeps_closed_read_message: "keeps_closed (read_message w l err)"
  by (rule keeps_closed_does[of "\<lambda>_. True"]) (rule does_read_message)

lemma keeps_closed_sync: "keeps_closed (sync w)"
proof (rule keeps_closedI)
  fix s r s' assume "sync w s = (r, s')" "state s = Closed"
  with sync_not_ready[of s w] show "state s' = Closed" by auto
qed

lemma keeps_closed_tar:
  "keeps_closed (tar_get w l a)" "keeps_closed (tar_send w l a)"
  unfolding tar_get_def tar_send_def
  by (intro keeps_closed_with_this keeps_closed_call; simp)+

lemma keeps_closed_bindMountLoop: "keeps_closed (bindMountLoop w xs)"
  by (induction xs)
     (auto intro!: keeps_closed_ret keeps_closed_seq keeps_closed_with_this keeps_closed_call
           simp: Let_def)

lemmas keeps_closed_intros = keeps_closed_ret keeps_closed_raise keeps_closed_read_message
  keeps_closed_modify keeps_closed_emit
  keeps_closed_seq keeps_closed_try_catch keeps_closed_with_this keeps_closed_if
  keeps_closed_let keeps_closed_case_option keeps_closed_call keeps_closed_sync keeps_closed_tar
  keeps_closed_bindMountLoop

lemma keeps_closed_syncLoop: "keeps_closed (syncLoop w)"
  unfolding syncLoop_def syncLoop_attempt_def syncLoop_schedule_def backoff_def getDetailedState_def
  by (intro keeps_closed_intros; simp)

lemma keeps_closed_handleSyncRequest: "keeps_closed (handleSyncRequest w msg)"
  unfolding handleSyncRequest_def
  by (intro keeps_closed_intros; simp)

lemma keeps_closed_init: "keeps_closed (init w)"
  unfolding init_def mountUnionFS_def bindMountExcludes_def makeScratchDir_def
    initSyncRequestHandler_def
  by (intro keeps_closed_intros keeps_closed_syncLoop; simp)

subsection \<open>What the loop and the handler catch\<close>

lemma sync_raises_Error:
  assumes "sync w s = (Inl e, s')"
  shows "\<exists>m. e = Error m"
proof (cases "state s = Ready")
  case True
  obtain r1 s1 where 1: "doSync w (s\<lparr>state := Sync\<rparr>) = (r1, s1)"
    by (cases "doSync w (s\<lparr>state := Sync\<rparr>)")
  show ?thesis
  proof (cases r1)
    case (Inr u)
    with assms True 1 show ?thesis by (simp add: sync_ready)
  next
    case (Inl err)
    with assms True 1 sync_catch_raises[of w err s1] show ?thesis
      by (auto simp add: sync_ready)
  qed
next
  case False
  with assms show ?thesis
    by (auto simp add: sync_def with_this_apply raise_apply split: if_splits)
qed

lemma read_message_apply:
  "read_message w l err t = (if nullish err then (Inl (Error (w_typeError w l)), t)
                             else (Inr (case err of Error m \<Rightarrow> Some m | Thrown v \<Rightarrow> None), t))"
proof (cases err)
  case (Error m)
  then show ?thesis by (simp add: ret_apply)
next
  case (Thrown v)
  then show ?thesis by (cases v) (simp_all add: ret_apply raise_apply)
qed

lemma returns_backoff: "returns backoff"
  unfolding backoff_def by (rule returns_modify)

text \<open>The handler of a sync request never throws, nor does the handler of a message
  without content.\<close>

lemma returns_handleSyncRequest:
  "m_event d = ''compute_server_sync_request'' \<Longrightarrow> returns (handleSyncRequest w (Some d))"
  "returns (handleSyncRequest w None)"
  unfolding handleSyncRequest_def
  by (simp_all, intro returns_intros, intro returns_intros)

subsection \<open>One tick of the loop\<close>

lemma schedule_apply:
  "syncLoop_schedule w t =
     (Inr (), t\<lparr>timeout := Some (min (syncIntervalMax t * 1000) (syncInterval t * 1000 + w_elapsed w)),
               trace := trace t @ [SetTimeout (min (syncIntervalMax t * 1000)
                                                (syncInterval t * 1000 + w_elapsed w))]\<rparr>)"
  by (cases t) (simp add: syncLoop_schedule_def prog_apply Let_def)

lemma syncLoop_enabled:
  assumes "''~'' \<notin> set (exclude s)" "''.'' \<notin> set (exclude s)"
  shows "syncLoop w s = (case syncLoop_attempt w s of
                           (Inl e, t) \<Rightarrow> (Inl e, t)
                         | (Inr u, t) \<Rightarrow> (Inr (), snd (syncLoop_schedule w t)))"
  using assms
  by (simp add: syncLoop_def with_this_apply seq_apply schedule_apply split: prod.split sum.split)

lemma syncLoop_disabled_apply:
  assumes "''~'' \<in> set (exclude s) \<or> ''.'' \<in> set (exclude s)"
  shows "syncLoop w s = (Inr (), s\<lparr>timeout := Some (1000 * 60),
                                    trace := trace s @ [SetTimeout (1000 * 60)]\<rparr>)"
  using assms by (cases s) (auto simp add: syncLoop_def prog_apply Let_def)

lemma backoff_apply:
  "backoff t = (Inr (), t\<lparr>syncInterval := min (syncIntervalMax t) (1.5 * syncInterval t)\<rparr>)"
  by (simp add: backoff_def modify_apply)

text \<open>The \<open>catch\<close> block of the loop.\<close>

lemma loop_catch_apply:
  "seq (read_message w 381 err) (\<lambda>_. backoff) t =
     (if nullish err then (Inl (Error (w_typeError w 381)), t)
      else (Inr (), t\<lparr>syncInterval := min (syncIntervalMax t) (1.5 * syncInterval t)\<rparr>))"
  by (simp add: seq_apply read_message_apply backoff_apply)

lemma attempt_not_ready: "state s \<noteq> Ready \<Longrightarrow> syncLoop_attempt w s = (Inr (), s)"
  by (simp add: syncLoop_attempt_def with_this_apply ret_apply)

lemma attempt_normal:
  "state s = Ready \<Longrightarrow> numFails s < MAX_FAILURES_IN_A_ROW \<Longrightarrow>
   syncLoop_attempt w s =
     (case sync w s of
        (Inr u, s1) \<Rightarrow> (Inr (), s1)
      | (Inl e, s1) \<Rightarrow> (Inr (), s1\<lparr>syncInterval := min (syncIntervalMax s1) (1.5 * syncInterval s1)\<rparr>))"
proof -
  assume a: "state s = Ready" "numFails s < MAX_FAILURES_IN_A_ROW"
  obtain r1 s1 where 1: "sync w s = (r1, s1)" by (cases "sync w s")
  show ?thesis
  proof (cases r1)
    case (Inr u)
    with a 1 show ?thesis
      by (simp add: syncLoop_attempt_def with_this_apply try_catch_apply)
  next
    case (Inl e)
    with 1 sync_raises_Error[of w s e s1] obtain m where "e = Error m" by blast
    with a 1 Inl show ?thesis
      by (simp add: syncLoop_attempt_def with_this_apply try_catch_apply seq_apply ret_apply
          backoff_apply)
  qed
qed

lemma attempt_tripped:
  "state s = Ready \<Longrightarrow> MAX_FAILURES_IN_A_ROW \<le> numFails s \<Longrightarrow>
   syncLoop_attempt w s =
     (case w_getDetailedState w of
        Inl e \<Rightarrow> if nullish e then (Inl (Error (w_typeError w 381)), snd (getDetailedState w s))
                 else backoff (snd (getDetailedState w s))
      | Inr d \<Rightarrow>
          if resumable d
          then (case sync w ((snd (getDetailedState w s))\<lparr>numFails := 0\<rparr>) of
                  (Inr u, s2) \<Rightarrow> (Inr (), s2)
                | (Inl e, s2) \<Rightarrow> backoff s2)
          else (Inr (), snd (getDetailedState w s)))"
proof -
  assume a: "state s = Ready" "MAX_FAILURES_IN_A_ROW \<le> numFails s"
  obtain s1 where g: "getDetailedState w s = (w_getDetailedState w, s1)"
    by (simp add: getDetailedState_def with_this_apply call_apply)
  show ?thesis
  proof (cases "w_getDetailedState w")
    case (Inl e)
    with a g show ?thesis
      by (simp add: syncLoop_attempt_def with_this_apply try_catch_apply seq_apply
          read_message_apply backoff_apply)
  next
    case (Inr d)
    show ?thesis
    proof (cases "resumable d")
      case False
      with a g Inr show ?thesis
        by (simp add: syncLoop_attempt_def with_this_apply try_catch_apply seq_apply ret_apply)
    next
      case True
      let ?s1' = "s1\<lparr>numFails := 0\<rparr>"
      obtain r2 s2 where 2: "sync w ?s1' = (r2, s2)" by (cases "sync w ?s1'")
      show ?thesis
      proof (cases r2)
        case Inr2: (Inr u)
        with a g Inr True 2 show ?thesis
          by (simp add: syncLoop_attempt_def with_this_apply try_catch_apply seq_apply
              modify_apply)
      next
        case Inl2: (Inl e)
        with 2 sync_raises_Error[of w ?s1' e s2] obtain m where "e = Error m" by blast
        with a g Inr True 2 Inl2 show ?thesis
          by (simp add: syncLoop_attempt_def with_this_apply try_catch_apply seq_apply
              modify_apply ret_apply backoff_apply)
      qed
    qed
  qed
qed

text \<open>A call of \<open>sync\<close> in any state: the bounds stay, the interval moves as the cycle
  says, the counter counts.\<close>

lemma sync_effect:
  assumes run: "sync w s = (r, s')"
  shows "syncIntervalMin s' = syncIntervalMin s \<and> syncIntervalMax s' = syncIntervalMax s
     \<and> compute_server_id s' = compute_server_id s
     \<and> trace s' = trace s @ new_events s s'
     \<and> (case r of
           Inl e \<Rightarrow> syncInterval s' = syncInterval s
             \<and> numFails s' = (if state s = Ready then numFails s + 1 else numFails s)
         | Inr u \<Rightarrow> state s = Ready \<and> numFails s' = 0
             \<and> syncInterval s' = (if list_ex is_work (new_events s s') then syncIntervalMin s
                                  else min (syncIntervalMax s) (1.3 * syncInterval s)))"
proof (cases "state s = Ready")
  case False
  with sync_not_ready[OF False, of w] run show ?thesis by (auto simp: new_events_def)
next
  case True
  from sync_summary[OF True run] obtain evs si tmo where
    s': "s' = s\<lparr>syncInterval := si, state := (if list_ex fusermount_call evs then Closed else Ready),
            timeout := tmo, numFails := (case r of Inl _ \<Rightarrow> numFails s + 1 | Inr _ \<Rightarrow> 0),
            trace := trace s @ evs\<rparr>"
    and rest: "case r of
           Inr _ \<Rightarrow> si = (if list_ex is_work evs then syncIntervalMin s
                          else min (syncIntervalMax s) (1.3 * syncInterval s))
         | Inl e \<Rightarrow> si = syncInterval s"
    by (cases r) auto
  have ne: "new_events s s' = evs" unfolding s' by (simp add: new_events_def)
  have f: "syncIntervalMin s' = syncIntervalMin s" "syncIntervalMax s' = syncIntervalMax s"
    "compute_server_id s' = compute_server_id s" "trace s' = trace s @ evs" "syncInterval s' = si"
    "numFails s' = (case r of Inl _ \<Rightarrow> numFails s + 1 | Inr _ \<Rightarrow> 0)"
    unfolding s' by simp_all
  from f ne rest True show ?thesis by (cases r) simp_all
qed

lemma interval_ok_grow:
  assumes "interval_ok s" and "1 \<le> c"
  shows "syncIntervalMin s \<le> min (syncIntervalMax s) (c * syncInterval s)"
    "min (syncIntervalMax s) (c * syncInterval s) \<le> syncIntervalMax s"
proof -
  from assms have "0 \<le> syncInterval s" "syncIntervalMin s \<le> syncInterval s"
    "syncIntervalMin s \<le> syncIntervalMax s"
    by (auto simp: interval_ok_def)
  moreover from \<open>0 \<le> syncInterval s\<close> assms(2) have "syncInterval s \<le> c * syncInterval s"
    by (simp add: mult_le_cancel_right1)
  ultimately show "syncIntervalMin s \<le> min (syncIntervalMax s) (c * syncInterval s)" by simp
  show "min (syncIntervalMax s) (c * syncInterval s) \<le> syncIntervalMax s" by simp
qed

lemma interval_ok_sync:
  assumes "sync w s = (r, s')" "interval_ok s"
  shows "interval_ok s'"
proof -
  note e = sync_effect[OF assms(1)]
  from interval_ok_grow[OF assms(2), of "1.3"] assms(2) e show ?thesis
    by (cases r) (auto simp: interval_ok_def)
qed

lemma interval_ok_backoff:
  assumes "interval_ok t"
  shows "interval_ok (t\<lparr>syncInterval := min (syncIntervalMax t) (1.5 * syncInterval t)\<rparr>)"
  using interval_ok_grow[OF assms, of "1.5"] assms by (simp add: interval_ok_def)

lemma getDetailedState_run:
  obtains c where "step s (snd (getDetailedState w s)) (GetDetailedState (compute_server_id s) # c)"
    "list_all close_kind c" "fst (getDetailedState w s) = w_getDetailedState w"
proof -
  obtain r1 s1 where 1: "call w 439 (GetDetailedState (compute_server_id s)) (w_getDetailedState w) s = (r1, s1)"
    by (cases "call w 439 (GetDetailedState (compute_server_id s)) (w_getDetailedState w) s")
  from 1 obtain c where "r1 = w_getDetailedState w"
    "step s s1 (GetDetailedState (compute_server_id s) # c)" "list_all close_kind c"
    by (rule call_run) simp
  with 1 that show thesis by (simp add: getDetailedState_def with_this_apply)
qed

text \<open>The attempt of a tick keeps the bounds and the interval within them.\<close>

lemma attempt_interval:
  assumes "syncLoop_attempt w s = (r, s')"
  shows "syncIntervalMin s' = syncIntervalMin s \<and> syncIntervalMax s' = syncIntervalMax s
         \<and> (interval_ok s \<longrightarrow> interval_ok s')"
proof (cases "state s = Ready")
  case False
  with assms show ?thesis by (simp add: attempt_not_ready)
next
  case True
  show ?thesis
  proof (cases "numFails s < MAX_FAILURES_IN_A_ROW")
    case normal: True
    obtain r1 s1 where 1: "sync w s = (r1, s1)" by (cases "sync w s")
    note e = sync_effect[OF 1]
    show ?thesis
    proof (cases r1)
      case (Inr u)
      with assms 1 True normal have "s' = s1" by (simp add: attempt_normal)
      with e interval_ok_sync[OF 1] show ?thesis by simp
    next
      case (Inl err)
      with assms 1 True normal
      have "s' = s1\<lparr>syncInterval := min (syncIntervalMax s1) (1.5 * syncInterval s1)\<rparr>"
        by (simp add: attempt_normal)
      with e interval_ok_sync[OF 1] interval_ok_backoff[of s1] show ?thesis by simp
    qed
  next
    case False
    then have tripped: "MAX_FAILURES_IN_A_ROW \<le> numFails s" by simp
    let ?s1 = "snd (getDetailedState w s)"
    obtain c where c: "step s ?s1 (GetDetailedState (compute_server_id s) # c)"
      by (rule getDetailedState_run)
    note f = step_fields[OF c]
    have ok1: "interval_ok s \<Longrightarrow> interval_ok ?s1" using f by (simp add: interval_ok_def)
    show ?thesis
    proof (cases "w_getDetailedState w")
      case (Inl e)
      with assms True tripped have "s' = ?s1
          \<or> s' = ?s1\<lparr>syncInterval := min (syncIntervalMax ?s1) (1.5 * syncInterval ?s1)\<rparr>"
        by (simp add: attempt_tripped backoff_apply split: if_splits)
      with f ok1 interval_ok_backoff[of ?s1] show ?thesis by auto
    next
      case (Inr d)
      show ?thesis
      proof (cases "resumable d")
        case False
        with assms True tripped Inr have "s' = ?s1" by (simp add: attempt_tripped)
        with f ok1 show ?thesis by simp
      next
        case res: True
        let ?s1' = "?s1\<lparr>numFails := 0\<rparr>"
        obtain r2 s2 where 2: "sync w ?s1' = (r2, s2)" by (cases "sync w ?s1'")
        note e = sync_effect[OF 2]
        have ok1': "interval_ok s \<Longrightarrow> interval_ok ?s1'" using ok1 by (simp add: interval_ok_def)
        show ?thesis
        proof (cases r2)
          case (Inr u)
          with assms True tripped \<open>w_getDetailedState w = Inr d\<close> res 2 have "s' = s2"
            by (simp add: attempt_tripped)
          with e f ok1' interval_ok_sync[OF 2] show ?thesis by simp
        next
          case (Inl err)
          with assms True tripped \<open>w_getDetailedState w = Inr d\<close> res 2
          have "s' = s2\<lparr>syncInterval := min (syncIntervalMax s2) (1.5 * syncInterval s2)\<rparr>"
            by (simp add: attempt_tripped backoff_apply)
          with e f ok1' interval_ok_sync[OF 2] interval_ok_backoff[of s2] show ?thesis by simp
        qed
      qed
    qed
  qed
qed

text \<open>A tick throws only when the breaker has tripped and the status read rejects with
  \<open>undefined\<close> or \<open>null\<close>; it then sets no timer.\<close>

lemma attempt_throws:
  "(\<exists>e. fst (syncLoop_attempt w s) = Inl e) \<longleftrightarrow>
     state s = Ready \<and> MAX_FAILURES_IN_A_ROW \<le> numFails s
     \<and> (\<exists>e. w_getDetailedState w = Inl e \<and> nullish e)"
proof (cases "state s = Ready")
  case False
  then show ?thesis by (simp add: attempt_not_ready)
next
  case True
  show ?thesis
  proof (cases "numFails s < MAX_FAILURES_IN_A_ROW")
    case normal: True
    then show ?thesis using True
      by (simp add: attempt_normal split: prod.split sum.split)
  next
    case False
    then have tripped: "MAX_FAILURES_IN_A_ROW \<le> numFails s" by simp
    show ?thesis using True tripped
      by (cases "w_getDetailedState w")
         (simp_all add: attempt_tripped backoff_apply split: prod.split sum.split)
  qed
qed

lemma attempt_throws_value:
  assumes "syncLoop_attempt w s = (Inl e, t)"
  shows "e = Error (w_typeError w 381) \<and> t = snd (getDetailedState w s)"
proof -
  from assms have "\<exists>e. fst (syncLoop_attempt w s) = Inl e" by simp
  then have a: "state s = Ready" "MAX_FAILURES_IN_A_ROW \<le> numFails s"
    and "\<exists>e. w_getDetailedState w = Inl e \<and> nullish e"
    by (simp_all add: attempt_throws)
  then obtain e0 where "w_getDetailedState w = Inl e0" "nullish e0" by blast
  with a assms show ?thesis by (simp add: attempt_tripped)
qed

lemma syncLoop_throws:
  "(\<exists>e. fst (syncLoop w s) = Inl e) \<longleftrightarrow>
     ''~'' \<notin> set (exclude s) \<and> ''.'' \<notin> set (exclude s)
     \<and> state s = Ready \<and> MAX_FAILURES_IN_A_ROW \<le> numFails s
     \<and> (\<exists>e. w_getDetailedState w = Inl e \<and> nullish e)"
proof (cases "''~'' \<in> set (exclude s) \<or> ''.'' \<in> set (exclude s)")
  case True
  from syncLoop_disabled_apply[OF True, of w] True show ?thesis by auto
next
  case False
  then have en: "''~'' \<notin> set (exclude s)" "''.'' \<notin> set (exclude s)" by simp_all
  obtain r t where a: "syncLoop_attempt w s = (r, t)" by (cases "syncLoop_attempt w s")
  have "(\<exists>e. fst (syncLoop w s) = Inl e) \<longleftrightarrow> (\<exists>e. fst (syncLoop_attempt w s) = Inl e)"
    unfolding syncLoop_enabled[OF en] a by (cases r) simp_all
  with en show ?thesis by (simp add: attempt_throws)
qed

lemma syncLoop_returns:
  assumes "\<not> (\<exists>e. fst (syncLoop w s) = Inl e)"
  shows "fst (syncLoop w s) = Inr ()"
  using assms by (cases "fst (syncLoop w s)") simp_all

subsection \<open>Runs in the example worlds\<close>

lemmas run_defs = sync_ready sync_finally_apply sync_catch_apply sync_catch_Thrown doSync_def doSync_apply_def
  makeScratchDir_def getComputeState_def sendFiles_def receiveFiles_def updateReadTracking_def
  tar_send_def tar_get_def prog_apply interleave_close_def Let_def join_def UNIONFS_def
  show_nat.simps alter_def

lemma doSync_w_fail:
  "doSync w_fail (fs0\<lparr>state := Sync\<rparr>)
     = (Inl (Error ''boom''),
        fs0\<lparr>state := Sync,
            trace := [SetDetailedState 1 \<lparr> r_state = ''get-compute-state'', r_extra = None,
                                          r_timeout = Some 10, r_progress = Some 0 \<rparr>,
                      Mkdir ''/home/user/.compute-servers/1'', ProjectApi ''proj'']\<rparr>)"
  by (simp add: run_defs w_fail_def w0_def fs0_def)

lemma sync_w_close:
  "sync w_close fs0
     = (Inr (),
        fs0\<lparr>state := Closed, syncInterval := 13,
            trace := [SetDetailedState 1 \<lparr> r_state = ''get-compute-state'', r_extra = None,
                                          r_timeout = Some 10, r_progress = Some 0 \<rparr>,
                      Mkdir ''/home/user/.compute-servers/1'', ProjectApi ''proj'',
                      Execa ''fusermount'' [''-uz'', ''/mnt''],
                      MtimeDirTree ''/upper'' [], MtimeDirTree ''/upper/.unionfs-fuse'' [],
                      WriteFile ''/home/user/.compute-servers/1/compute-state.json.lz4'' (CompressedJSON []),
                      SetDetailedState 1 \<lparr> r_state = ''send-state-to-project'', r_extra = None,
                                          r_timeout = Some 10, r_progress = Some 20 \<rparr>,
                      SyncFSRequest ''.compute-servers/1/compute-state.json.lz4'' [] 1]\<rparr>)"
  by (simp add: run_defs close_def unmountExcludes_def w_close_def w0_def fs0_def)

lemma sync_w_both:
  "filter is_transfer (new_events fs0 (snd (sync w_both fs0)))
     = [TarSend \<lparr> createArgs = [''-I'', ''lz4'', ''-c'', ''--null'', ''--no-recursion'',
                                ''--verbatim-files-from'', ''--files-from'',
                                ''/home/user/.compute-servers/1/copy-to-project''],
                  extractArgs = [''-I'', ''lz4'', ''--delay-directory-restore'', ''-x''],
                  HOME = None \<rparr>,
        TarGet \<lparr> createArgs = [''-I'', ''lz4'', ''-c'', ''--null'', ''--no-recursion'',
                               ''--verbatim-files-from'', ''--files-from'', ''manifest''],
                 extractArgs = [''-I'', ''lz4'', ''--delay-directory-restore'', ''-x''],
                 HOME = None \<rparr>]"
  by (simp add: run_defs new_events_def w_both_def w0_def fs0_def)

lemma sync_w_string:
  "sync w_string fs0
     = (Inl (Error (w_typeError w_string 328)),
        fs0\<lparr>numFails := 1,
            trace := [SetDetailedState 1 \<lparr> r_state = ''get-compute-state'', r_extra = None,
                                          r_timeout = Some 10, r_progress = Some 0 \<rparr>,
                      Mkdir ''/home/user/.compute-servers/1'', ProjectApi ''proj'',
                      SetDetailedState 1 \<lparr> r_state = ''ready'', r_extra = None,
                                          r_timeout = Some 13, r_progress = Some 100 \<rparr>]\<rparr>)"
  by (simp add: run_defs summary_line_def MAX_FAILURES_IN_A_ROW_def w_string_def w0_def fs0_def)


section \<open>The claims\<close>

lemma new_SyncFS_opts0: "new_SyncFS opts0 = Inr fs0"
  by (simp add: new_SyncFS_def opts0_def fs0_def join_def show_nat.simps
      DEFAULT_SYNC_INTERVAL_MIN_S_def DEFAULT_SYNC_INTERVAL_MAX_S_def)

subsection \<open>C1: a second sync while one is in progress\<close>

text \<open>
  Claim C1. In every state of the object and every world, \<open>sync()\<close> called while the
  field \<open>state\<close> is \<open>sync\<close> throws the error "sync currently in progress" and returns
  the object as it was: nothing is added to the trace (no call to the project API, no
  scan, no transfer), and the state, the fail counter and every other field are
  unchanged.
\<close>

theorem C1_sync_in_progress:
  "state s = Sync \<Longrightarrow> sync w s = (Inl (Error ''sync currently in progress''), s)"
  by (simp add: sync_def with_this_apply raise_apply)

theorem C1_sync_in_progress_witness:
  "state (fs0\<lparr>state := Sync\<rparr>) = Sync
   \<and> sync w0 (fs0\<lparr>state := Sync\<rparr>) = (Inl (Error ''sync currently in progress''), fs0\<lparr>state := Sync\<rparr>)"
  using C1_sync_in_progress[of "fs0\<lparr>state := Sync\<rparr>" w0] by simp

subsection \<open>C9: the compression option\<close>

text \<open>
  Claim C9. The constructor, given a falsy value for \<open>compression\<close> (other than leaving
  it out), keeps the tar primitives as they are; given \<open>"lz4"\<close>, or nothing, which
  defaults to it, it wraps them so that \<open>["-I", "lz4"]\<close> is put in front of both the
  create and the extract arguments; given any other truthy value it throws the error
  "invalid compression". In each case \<open>send\<close> and \<open>get\<close> call the primitive with the
  arguments that \<open>this_tar\<close> gives and return its outcome.
\<close>

theorem C9_compression:
  "(\<not> truthy c \<and> c \<noteq> JUndefined \<longrightarrow>
      (\<exists>this. new_SyncFS (opts\<lparr>opt_compression := c\<rparr>) = Inr this \<and> (\<forall>a. this_tar (tar this) a = a)))
   \<and> (c = JStr ''lz4'' \<or> c = JUndefined \<longrightarrow>
      (\<exists>this. new_SyncFS (opts\<lparr>opt_compression := c\<rparr>) = Inr this
         \<and> (\<forall>a. createArgs (this_tar (tar this) a) = [''-I'', ''lz4''] @ createArgs a
               \<and> extractArgs (this_tar (tar this) a) = [''-I'', ''lz4''] @ extractArgs a
               \<and> HOME (this_tar (tar this) a) = HOME a)))
   \<and> (truthy c \<and> c \<noteq> JStr ''lz4'' \<longrightarrow>
      new_SyncFS (opts\<lparr>opt_compression := c\<rparr>)
        = Inl (Error (''invalid compression: '' @ [CHR 0x27] @ to_string c @ [CHR 0x27])))
   \<and> (\<forall>w line a s.
        tar_send w line a s
          = call w line (TarSend (this_tar (tar s) a)) (outcome (w_tar_send w (this_tar (tar s) a))) s
        \<and> tar_get w line a s
          = call w line (TarGet (this_tar (tar s) a)) (outcome (w_tar_get w (this_tar (tar s) a))) s)"
  by (cases c) (auto simp: new_SyncFS_def Let_def alter_def tar_send_def tar_get_def with_this_apply)

theorem C9_compression_witness:
  "new_SyncFS (opts0\<lparr>opt_compression := JStr ''gzip''\<rparr>) = Inl (Error (''invalid compression: '' @ [CHR 0x27] @ ''gzip'' @ [CHR 0x27]))
   \<and> (\<exists>this. new_SyncFS (opts0\<lparr>opt_compression := JStr ''''\<rparr>) = Inr this
         \<and> (\<forall>a. this_tar (tar this) a = a))
   \<and> (\<exists>this. new_SyncFS (opts0\<lparr>opt_compression := JStr ''lz4''\<rparr>) = Inr this
         \<and> (\<forall>a. createArgs (this_tar (tar this) a) = [''-I'', ''lz4''] @ createArgs a
               \<and> extractArgs (this_tar (tar this) a) = [''-I'', ''lz4''] @ extractArgs a
               \<and> HOME (this_tar (tar this) a) = HOME a))"
  using C9_compression[of "JStr ''gzip''" opts0] C9_compression[of "JStr ''''" opts0]
    C9_compression[of "JStr ''lz4''" opts0]
  by simp

subsection \<open>C4: the exclude list that disables sync\<close>










subsection \<open>C6: whiteout markers in the scan\<close>

lemma endsWith_split: "endsWith p suf \<Longrightarrow> p = take (length p - length suf) p @ suf"
  unfolding endsWith_def by (metis append_take_drop_id)

lemma unsuffix_inj:
  assumes "endsWith p suf" "endsWith q suf"
    and "take (length p - length suf) p = take (length q - length suf) q"
  shows "p = q"
  using endsWith_split[OF assms(1)] endsWith_split[OF assms(2)] assms(3) by simp

lemma interleave_fields:
  "upper (interleave_close w l s) = upper s" "lower (interleave_close w l s) = lower s"
  "exclude (interleave_close w l s) = exclude s" "tar (interleave_close w l s) = tar s"
  "numFails (interleave_close w l s) = numFails s"
  "syncInterval (interleave_close w l s) = syncInterval s"
  "syncIntervalMin (interleave_close w l s) = syncIntervalMin s"
  "syncIntervalMax (interleave_close w l s) = syncIntervalMax s"
  "compute_server_id (interleave_close w l s) = compute_server_id s"
  "scratch (interleave_close w l s) = scratch s" "error_txt (interleave_close w l s) = error_txt s"
  "readTrackingFile (interleave_close w l s) = readTrackingFile s"
  "mount (interleave_close w l s) = mount s" "data (interleave_close w l s) = data s"
  "project_id (interleave_close w l s) = project_id s"
  "websocket (interleave_close w l s) = websocket s"
  using step_interleave[of s w l] by (auto dest: step_fields)

text \<open>What the loop of lines 541-551 has done when it returns: every marker among the
  keys still to visit, and every marker already recorded, is recorded with the negated
  time; the list of whiteouts only grows; the unsuffixed path of a marker that is a
  directory is in it.\<close>

lemma whiteoutLoop_result:
  assumes "whiteoutLoop w u mt ks (cs, wh) s = (Inr (cs', wh'), s')"
  shows "(\<forall>path mtime. map_of mt path = Some mtime \<and> endsWith path ''_HIDDEN~''
            \<and> (path \<in> set ks \<or> map_of cs (take (length path - whiteLen) path) = Some (- mtime))
            \<longrightarrow> map_of cs' (take (length path - whiteLen) path) = Some (- mtime))
       \<and> set wh \<subseteq> set wh'
       \<and> (\<forall>path \<in> set ks. map_of mt path \<noteq> None \<and> endsWith path ''_HIDDEN~''
            \<and> w_isDirectory w (join [u, path]) = Inr True
            \<longrightarrow> take (length path - whiteLen) path \<in> set wh')"
  using assms
proof (induction ks arbitrary: cs wh s)
  case Nil
  then show ?case by (simp add: ret_apply)
next
  case (Cons k ks)
  show ?case
  proof (cases "map_of mt k")
    case None
    with Cons.prems have "whiteoutLoop w u mt ks (cs, wh) s = (Inr (cs', wh'), s')" by simp
    from Cons.IH[OF this] None show ?thesis by auto
  next
    case (Some m)
    show ?thesis
    proof (cases "endsWith k ''_HIDDEN~''")
      case False
      with Some Cons.prems have "whiteoutLoop w u mt ks (cs, wh) s = (Inr (cs', wh'), s')" by simp
      from Cons.IH[OF this] False show ?thesis by auto
    next
      case True
      let ?p = "take (length k - whiteLen) k"
      let ?s1 = "interleave_close w 546 (trace_update (\<lambda>t. t @ [Stat (join [u, k])]) s)"
      from Cons.prems Some True obtain d where d: "w_isDirectory w (join [u, k]) = Inr d"
        and rest: "whiteoutLoop w u mt ks
                     (AList.update ?p (- m) cs, if d then wh @ [k] @ [?p] else wh @ [k]) ?s1
                   = (Inr (cs', wh'), s')"
        by (cases "w_isDirectory w (join [u, k])") (simp_all add: Let_def seq_apply call_apply)
      note ih = Cons.IH[OF rest]
      have 1: "map_of cs' (take (length path - whiteLen) path) = Some (- mtime)"
        if a: "map_of mt path = Some mtime" "endsWith path ''_HIDDEN~''"
          and b: "path \<in> set (k # ks) \<or> map_of cs (take (length path - whiteLen) path) = Some (- mtime)"
        for path mtime
      proof -
        have "path \<in> set ks
              \<or> map_of (AList.update ?p (- m) cs) (take (length path - whiteLen) path) = Some (- mtime)"
        proof (cases "take (length path - whiteLen) path = ?p")
          case same: True
          have "path = k" using unsuffix_inj[OF a(2) True] same by (simp add: whiteLen_def)
          with a(1) Some have "mtime = m" by simp
          with same show ?thesis by (simp add: update_conv')
        next
          case diff: False
          then have "path \<noteq> k" by auto
          with b diff show ?thesis by (auto simp: update_conv')
        qed
        with ih a show ?thesis by blast
      qed
      have 2: "set wh \<subseteq> set wh'" using ih by auto
      have 3: "take (length path - whiteLen) path \<in> set wh'"
        if "path \<in> set (k # ks)" "map_of mt path \<noteq> None" "endsWith path ''_HIDDEN~''"
          "w_isDirectory w (join [u, path]) = Inr True" for path
      proof (cases "path = k")
        case True
        with that(4) d have "d" by simp
        with ih True show ?thesis by auto
      next
        case False
        with that ih show ?thesis by auto
      qed
      from 1 2 3 show ?thesis by blast
    qed
  qed
qed

text \<open>
  Claim C6. Let \<open>getComputeState\<close> return the state \<open>computeState\<close> and the list
  \<open>whiteouts\<close>, and let \<open>path\<close>, with change time \<open>mtime\<close>, be an entry of the scan
  of the whiteout directory \<open>.unionfs-fuse\<close> of the upper layer that ends with
  \<open>_HIDDEN~\<close>. Then \<open>computeState\<close> maps the path without the suffix to \<open>- mtime\<close>,
  which is negative as change times are positive; it holds no positive time for that
  path; and when the marker is a directory the path without the suffix is in
  \<open>whiteouts\<close>.
\<close>

theorem C6_whiteout_marker:
  assumes run: "getComputeState w s = (Inr (computeState, whiteouts), s')"
    and scan: "w_mtimeDirTree w (join [upper s, UNIONFS]) [] = Inr mtimes"
    and entry: "map_of mtimes path = Some mtime"
    and marker: "endsWith path ''_HIDDEN~''"
    and positive: "0 < mtime"
  shows "map_of computeState (take (length path - whiteLen) path) = Some (- mtime)
         \<and> - mtime < 0
         \<and> \<not> (\<exists>t. 0 < t \<and> map_of computeState (take (length path - whiteLen) path) = Some t)
         \<and> (w_isDirectory w (join [join [upper s, UNIONFS], path]) = Inr True
              \<longrightarrow> take (length path - whiteLen) path \<in> set whiteouts)"
proof -
  let ?s1 = "interleave_close w 531 (trace_update (\<lambda>t. t @ [MtimeDirTree (upper s) (exclude s)]) s)"
  let ?u = "join [upper s, UNIONFS]"
  let ?s2 = "interleave_close w 537 (trace_update (\<lambda>t. t @ [MtimeDirTree ?u []]) ?s1)"
  have u: "upper ?s1 = upper s" by (simp add: interleave_fields)
  from run scan obtain cs0 where
    loop: "whiteoutLoop w ?u mtimes (map fst mtimes) (cs0, []) ?s2 = (Inr (computeState, whiteouts), s')"
    by (cases "w_mtimeDirTree w (upper s) (exclude s)")
       (simp_all add: getComputeState_def seq_apply with_this_apply call_apply Let_def u)
  from entry have key: "path \<in> set (map fst mtimes)"
    by (metis map_of_SomeD image_eqI fst_conv set_map)
  from whiteoutLoop_result[OF loop] entry marker key
  have val: "map_of computeState (take (length path - whiteLen) path) = Some (- mtime)"
    and dir: "w_isDirectory w (join [?u, path]) = Inr True
              \<longrightarrow> take (length path - whiteLen) path \<in> set whiteouts"
    by auto
  from val positive dir show ?thesis by auto
qed

theorem C6_whiteout_marker_witness:
  "getComputeState
     (w0\<lparr>w_mtimeDirTree := (\<lambda>p x. if p = ''/upper'' then Inr [(''foo.txt'', 100)]
                                   else Inr [(''deleted.txt_HIDDEN~'', 200)]),
         w_isDirectory := (\<lambda>p. Inr True)\<rparr>) fs0
     = (Inr ([(''foo.txt'', 100), (''deleted.txt'', - 200)], [''deleted.txt_HIDDEN~'', ''deleted.txt'']),
        fs0\<lparr>trace := [MtimeDirTree ''/upper'' [], MtimeDirTree ''/upper/.unionfs-fuse'' [],
                      Stat ''/upper/.unionfs-fuse/deleted.txt_HIDDEN~'']\<rparr>)
   \<and> map_of [(''foo.txt'', 100), (''deleted.txt'', - 200 :: real)]
        (take (length ''deleted.txt_HIDDEN~'' - whiteLen) ''deleted.txt_HIDDEN~'') = Some (- 200)
   \<and> take (length ''deleted.txt_HIDDEN~'' - whiteLen) ''deleted.txt_HIDDEN~''
        \<in> set [''deleted.txt_HIDDEN~'', ''deleted.txt'']"
proof -
  let ?w = "w0\<lparr>w_mtimeDirTree := (\<lambda>p x. if p = ''/upper'' then Inr [(''foo.txt'', 100)]
                                   else Inr [(''deleted.txt_HIDDEN~'', 200)]),
         w_isDirectory := (\<lambda>p. Inr True)\<rparr>"
  let ?cs = "[(''foo.txt'', 100), (''deleted.txt'', - 200 :: real)]"
  let ?wh = "[''deleted.txt_HIDDEN~'', ''deleted.txt'']"
  let ?s' = "fs0\<lparr>trace := [MtimeDirTree ''/upper'' [], MtimeDirTree ''/upper/.unionfs-fuse'' [],
                      Stat ''/upper/.unionfs-fuse/deleted.txt_HIDDEN~'']\<rparr>"
  have run: "getComputeState ?w fs0 = (Inr (?cs, ?wh), ?s')"
    by (simp add: getComputeState_def seq_apply with_this_apply call_apply Let_def ret_apply
        interleave_close_def w0_def fs0_def join_def UNIONFS_def endsWith_def whiteLen_def)
  have scan: "w_mtimeDirTree ?w (join [upper fs0, UNIONFS]) [] = Inr [(''deleted.txt_HIDDEN~'', 200)]"
    by (simp add: w0_def fs0_def join_def UNIONFS_def)
  have entry: "map_of [(''deleted.txt_HIDDEN~'', 200 :: real)] ''deleted.txt_HIDDEN~'' = Some 200"
    by simp
  have marker: "endsWith ''deleted.txt_HIDDEN~'' ''_HIDDEN~''" by (simp add: endsWith_def)
  from C6_whiteout_marker[OF run scan entry marker] run show ?thesis by (simp add: whiteLen_def)
qed
subsection \<open>C8: a cycle that fails\<close>

text \<open>
  Claim C8 as stated fails for a thrown value that is no \<open>Error\<close>: when the project API
  rejects with the string \<open>timeout\<close>, the \<open>catch\<close> block of \<open>sync()\<close> counts the failure
  and then throws a \<open>TypeError\<close> itself, on line 328, where it reads
  \<open>err.message.slice\<close>. No \<open>error\<close> status is reported and nothing is written to
  \<open>error.txt\<close>: the call adds to the trace only the first report of the cycle, its two
  calls, and the \<open>ready\<close> report of the \<open>finally\<close> block.
\<close>

theorem C8_counterexample:
  "state fs0 = Ready
   \<and> fst (doSync w_string (fs0\<lparr>state := Sync\<rparr>)) = Inl (Thrown (JStr ''timeout''))
   \<and> fst (sync w_string fs0) = Inl (Error (w_typeError w_string 328))
   \<and> numFails (snd (sync w_string fs0)) = 1
   \<and> new_events fs0 (snd (sync w_string fs0))
       = [SetDetailedState 1 \<lparr> r_state = ''get-compute-state'', r_extra = None,
                                r_timeout = Some 10, r_progress = Some 0 \<rparr>,
          Mkdir ''/home/user/.compute-servers/1'', ProjectApi ''proj'',
          SetDetailedState 1 \<lparr> r_state = ''ready'', r_extra = None,
                                r_timeout = Some 13, r_progress = Some 100 \<rparr>]"
proof -
  have d: "fst (doSync w_string (fs0\<lparr>state := Sync\<rparr>)) = Inl (Thrown (JStr ''timeout''))"
    by (simp add: run_defs w_string_def w0_def fs0_def)
  have r: "state fs0 = Ready" "trace fs0 = []" by (simp_all add: fs0_def)
  from d r show ?thesis unfolding sync_w_string by (simp add: new_events_def)
qed

text \<open>
  Claim C8, amended. Let \<open>sync()\<close> be called on a ready object and let the cycle body
  \<open>__doSync\<close> throw \<open>err\<close>. Then \<open>sync()\<close> catches it: the fail counter is one more
  than before, the state is not left as \<open>sync\<close>, and what \<open>sync()\<close> throws is an
  \<open>Error\<close>. When \<open>err\<close> is an \<open>Error\<close> with the message \<open>m\<close>, \<open>reportState\<close> is called
  with the state \<open>error\<close> and a message that holds the first 200 characters of \<open>m\<close>
  while the counter is below 3, and the first 250 once it has reached 3; the same message
  is written to \<open>error.txt\<close>; and \<open>sync()\<close> throws an \<open>Error\<close> with that message.
  Neither the loop nor the handler of sync requests lets through what \<open>sync()\<close>
  throws: a tick below the failure threshold returns, a tick throws only when the read
  of the status rejects with \<open>undefined\<close> or \<open>null\<close>, and the handler of a sync request
  always returns.
\<close>

theorem C8_cycle_failure:
  assumes "state s = Ready" and "doSync w (s\<lparr>state := Sync\<rparr>) = (Inl err, s1)"
  shows "(\<exists>m. fst (sync w s) = Inl (Error m))
     \<and> numFails (snd (sync w s)) = numFails s + 1
     \<and> state (snd (sync w s)) \<noteq> Sync
     \<and> (\<forall>m. err = Error m \<longrightarrow>
          fst (sync w s) = Inl (Error (summary (numFails s + 1) m))
          \<and> SetDetailedState (compute_server_id s)
               \<lparr> r_state = ''error'', r_extra = Some (summary (numFails s + 1) m),
                 r_timeout = Some 60, r_progress = Some 0 \<rparr> \<in> set (new_events s (snd (sync w s)))
          \<and> WriteFile (error_txt s) (Text (summary (numFails s + 1) m))
               \<in> set (new_events s (snd (sync w s)))
          \<and> summary (numFails s + 1) m
               = (if numFails s + 1 < 3
                  then ''Sync failed '' @ show_nat (numFails s + 1) @ '' times in a row with -- ''
                       @ take 200 m @ ''...''
                  else ''Sync failed 3 in a row.  FIX THE PROBLEM, THEN CLEAR THIS ERROR TO RESUME SYNC. -- ''
                       @ take 250 m))
     \<and> (numFails s < MAX_FAILURES_IN_A_ROW \<longrightarrow> fst (syncLoop w s) = Inr ())
     \<and> (\<forall>w' s'. (\<exists>e. fst (syncLoop w' s') = Inl e)
           \<longrightarrow> (\<exists>e. w_getDetailedState w' = Inl e \<and> nullish e))
     \<and> (\<forall>w' d s'. m_event d = ''compute_server_sync_request''
           \<longrightarrow> fst (handleSyncRequest w' (Some d) s') = Inr ())"
proof -
  obtain r s' where run: "sync w s = (r, s')" by (cases "sync w s")
  from sync_summary[OF assms(1) run] obtain evs si tmo where
    s': "s' = s\<lparr>syncInterval := si, state := (if list_ex fusermount_call evs then Closed else Ready),
            timeout := tmo, numFails := (case r of Inl _ \<Rightarrow> numFails s + 1 | Inr _ \<Rightarrow> 0),
            trace := trace s @ evs\<rparr>"
    and rest: "case r of
           Inr _ \<Rightarrow> si = (if list_ex is_work evs then syncIntervalMin s
                          else min (syncIntervalMax s) (1.3 * syncInterval s))
         | Inl e \<Rightarrow> si = syncInterval s
             \<and> (\<exists>err. fst (doSync w (s\<lparr>state := Sync\<rparr>)) = Inl err
                  \<and> (case err of
                        Error m \<Rightarrow>
                          e = Error (summary (numFails s + 1) m)
                          \<and> SetDetailedState (compute_server_id s)
                               \<lparr> r_state = ''error'', r_extra = Some (summary (numFails s + 1) m),
                                 r_timeout = Some 60, r_progress = Some 0 \<rparr> \<in> set evs
                          \<and> WriteFile (error_txt s) (Text (summary (numFails s + 1) m)) \<in> set evs
                      | Thrown v \<Rightarrow>
                          e = Error (w_typeError w (summary_line (numFails s + 1)))
                          \<and> evs = new_events (s\<lparr>state := Sync\<rparr>)
                                    (snd (doSync w (s\<lparr>state := Sync\<rparr>)))
                                  @ (if list_ex fusermount_call evs then []
                                     else [SetDetailedState (compute_server_id s)
                                             \<lparr> r_state = ''ready'', r_extra = None,
                                               r_timeout = Some (3 + syncInterval s),
                                               r_progress = Some 100 \<rparr>])))"
    by (elim exE conjE)
  from run assms sync_catch_raises[of w err s1] obtain m0 where e: "r = Inl (Error m0)"
    by (auto simp add: sync_ready)
  have ne: "new_events s s' = evs" unfolding s' by (simp add: new_events_def)
  have nf: "numFails s' = numFails s + 1" unfolding s' using e by simp
  have st: "state s' \<noteq> Sync" unfolding s' by simp
  have err: "Error m0 = Error (summary (numFails s + 1) m)
          \<and> SetDetailedState (compute_server_id s)
               \<lparr> r_state = ''error'', r_extra = Some (summary (numFails s + 1) m),
                 r_timeout = Some 60, r_progress = Some 0 \<rparr> \<in> set evs
          \<and> WriteFile (error_txt s) (Text (summary (numFails s + 1) m)) \<in> set evs"
    if "err = Error m" for m
    using rest e assms(2) that by auto
  have msg: "summary (numFails s + 1) m
               = (if numFails s + 1 < 3
                  then ''Sync failed '' @ show_nat (numFails s + 1) @ '' times in a row with -- ''
                       @ take 200 m @ ''...''
                  else ''Sync failed 3 in a row.  FIX THE PROBLEM, THEN CLEAR THIS ERROR TO RESUME SYNC. -- ''
                       @ take 250 m)" for m
    by (simp add: summary_def MAX_FAILURES_IN_A_ROW_def show_nat.simps)
  have tick: "fst (syncLoop w s) = Inr ()" if "numFails s < MAX_FAILURES_IN_A_ROW"
    by (rule syncLoop_returns) (use that in \<open>simp add: syncLoop_throws\<close>)
  have loop: "\<exists>e. w_getDetailedState w' = Inl e \<and> nullish e"
    if "\<exists>e. fst (syncLoop w' s') = Inl e" for w' s'
    using that by (simp add: syncLoop_throws)
  have handler: "fst (handleSyncRequest w' (Some d) s') = Inr ()"
    if "m_event d = ''compute_server_sync_request''" for w' d s'
    using returns_handleSyncRequest(1)[OF that, of w'] by (simp add: returns_def)
  from run e ne nf st err msg tick loop handler show ?thesis by simp
qed

theorem C8_cycle_failure_witness:
  "state fs0 = Ready
   \<and> fst (doSync w_fail (fs0\<lparr>state := Sync\<rparr>)) = Inl (Error ''boom'')
   \<and> fst (sync w_fail fs0) = Inl (Error ''Sync failed 1 times in a row with -- boom...'')
   \<and> numFails (snd (sync w_fail fs0)) = 1
   \<and> WriteFile ''/home/user/.compute-servers/1/error.txt''
        (Text ''Sync failed 1 times in a row with -- boom...'')
        \<in> set (new_events fs0 (snd (sync w_fail fs0)))
   \<and> fst (syncLoop w_fail fs0) = Inr ()"
proof -
  have ready: "state fs0 = Ready" by (simp add: fs0_def)
  have f: "numFails fs0 = 0" "error_txt fs0 = ''/home/user/.compute-servers/1/error.txt''"
    by (simp_all add: fs0_def)
  have lt: "numFails fs0 < MAX_FAILURES_IN_A_ROW" by (simp add: f MAX_FAILURES_IN_A_ROW_def)
  note t = C8_cycle_failure[OF ready doSync_w_fail]
  note m = t[THEN conjunct2, THEN conjunct2, THEN conjunct2, THEN conjunct1, rule_format, OF refl]
  have a: "fst (sync w_fail fs0) = Inl (Error (summary (numFails fs0 + 1) ''boom''))"
    "WriteFile (error_txt fs0) (Text (summary (numFails fs0 + 1) ''boom''))
       \<in> set (new_events fs0 (snd (sync w_fail fs0)))"
    "numFails (snd (sync w_fail fs0)) = numFails fs0 + 1"
    using m[THEN conjunct1] m[THEN conjunct2, THEN conjunct2, THEN conjunct1]
      t[THEN conjunct2, THEN conjunct1] by - assumption+
  have b: "fst (syncLoop w_fail fs0) = Inr ()"
    using t[THEN conjunct2, THEN conjunct2, THEN conjunct2, THEN conjunct2, THEN conjunct1] lt
    by (rule mp)
  have s: "summary (Suc 0) ''boom'' = ''Sync failed 1 times in a row with -- boom...''"
    by (simp add: summary_def MAX_FAILURES_IN_A_ROW_def show_nat.simps)
  from ready doSync_w_fail a b show ?thesis by (simp add: f s)
qed

subsection \<open>C10: the state after sync\<close>

text \<open>
  Claim C10 as stated fails for the call that C1 is about: \<open>sync()\<close> called while the
  state is \<open>sync\<close> throws, and the state is \<open>sync\<close> when it has terminated.
\<close>

theorem C10_counterexample:
  "state (fs0\<lparr>state := Sync\<rparr>) = Sync
   \<and> fst (sync w0 (fs0\<lparr>state := Sync\<rparr>)) = Inl (Error ''sync currently in progress'')
   \<and> state (snd (sync w0 (fs0\<lparr>state := Sync\<rparr>))) = Sync"
  by (simp add: sync_def with_this_apply raise_apply)

text \<open>
  Claim C10, amended. A call of \<open>sync()\<close> on an object whose state is not \<open>sync\<close>
  never leaves the state as \<open>sync\<close>. When the state is \<open>ready\<close> at the call, then,
  whether \<open>sync()\<close> returns or throws, the state is \<open>ready\<close> afterwards unless
  \<open>close()\<close> ran during the cycle (the trace of the call holds its \<open>fusermount\<close>), in
  which case it is \<open>closed\<close>. \<open>close()\<close> always leaves the state \<open>closed\<close>, and on
  a closed object it returns at once and changes nothing; \<open>sync\<close>, a tick of
  \<open>syncLoop\<close>, \<open>handleSyncRequest\<close> and \<open>init\<close> leave a closed object closed.
\<close>

theorem C10_state_after_sync:
  "(state s \<noteq> Sync \<longrightarrow> state (snd (sync w s)) \<noteq> Sync)
   \<and> (state s = Ready \<longrightarrow>
        state (snd (sync w s))
          = (if list_ex fusermount_call (new_events s (snd (sync w s))) then Closed else Ready))
   \<and> state (snd (close w s)) = Closed
   \<and> (state s = Closed \<longrightarrow>
        close w s = (Inr (), s)
        \<and> state (snd (sync w s)) = Closed
        \<and> state (snd (syncLoop w s)) = Closed
        \<and> state (snd (handleSyncRequest w msg s)) = Closed
        \<and> state (snd (init w s)) = Closed)"
proof -
  have ready: "state (snd (sync w s))
          = (if list_ex fusermount_call (new_events s (snd (sync w s))) then Closed else Ready)"
    if r: "state s = Ready"
  proof -
    obtain r1 s' where run: "sync w s = (r1, s')" by (cases "sync w s")
    from sync_summary[OF r run] obtain evs si tmo where
      s': "s' = s\<lparr>syncInterval := si, state := (if list_ex fusermount_call evs then Closed else Ready),
            timeout := tmo, numFails := (case r1 of Inl _ \<Rightarrow> numFails s + 1 | Inr _ \<Rightarrow> 0),
            trace := trace s @ evs\<rparr>"
      by (elim exE conjE)
    have "new_events s s' = evs" unfolding s' by (simp add: new_events_def)
    moreover have "state s' = (if list_ex fusermount_call evs then Closed else Ready)"
      unfolding s' by simp
    ultimately show ?thesis using run by simp
  qed
  have not_sync: "state (snd (sync w s)) \<noteq> Sync" if "state s \<noteq> Sync"
  proof (cases "state s = Ready")
    case True
    from ready[OF True] show ?thesis by (simp split: if_splits)
  next
    case False
    with sync_not_ready[OF False, of w] that show ?thesis by auto
  qed
  have closed: "state (snd (m s)) = Closed" if "keeps_closed m" "state s = Closed" for m :: "unit prog"
    using keeps_closedD[OF that(1) _ that(2), of "fst (m s)" "snd (m s)"] by simp
  from ready not_sync state_close[of w s] close_closed[of s w]
    closed[OF keeps_closed_sync] closed[OF keeps_closed_syncLoop]
    closed[OF keeps_closed_handleSyncRequest] closed[OF keeps_closed_init]
  show ?thesis by simp
qed

theorem C10_state_after_sync_witness:
  "state fs0 \<noteq> Sync \<and> state fs0 = Ready
   \<and> state (snd (sync w0 fs0)) = Ready
   \<and> state (snd (sync w_fail fs0)) = Ready
   \<and> state (snd (sync w_close fs0)) = Closed
   \<and> state (fs0\<lparr>state := Closed\<rparr>) = Closed
   \<and> state (snd (syncLoop w0 (fs0\<lparr>state := Closed\<rparr>))) = Closed"
proof -
  have r: "state fs0 = Ready" by (simp add: fs0_def)
  have 0: "\<not> list_ex fusermount_call (new_events fs0 (snd (sync w0 fs0)))"
    by (simp add: run_defs new_events_def w0_def fs0_def)
  have 1: "\<not> list_ex fusermount_call (new_events fs0 (snd (sync w_fail fs0)))"
    by (simp add: run_defs logSyncError_def new_events_def w_fail_def w0_def fs0_def)
  have 2: "list_ex fusermount_call (new_events fs0 (snd (sync w_close fs0)))"
    unfolding sync_w_close by (simp add: new_events_def fs0_def)
  have a: "state (snd (sync w0 fs0)) = Ready"
    using C10_state_after_sync[of fs0 w0] 0 r by simp
  have b: "state (snd (sync w_fail fs0)) = Ready"
    using C10_state_after_sync[of fs0 w_fail] 1 r by simp
  have c: "state (snd (sync w_close fs0)) = Closed"
    using C10_state_after_sync[of fs0 w_close] 2 r by simp
  have d: "state (snd (syncLoop w0 (fs0\<lparr>state := Closed\<rparr>))) = Closed"
    using C10_state_after_sync[of "fs0\<lparr>state := Closed\<rparr>" w0] by simp
  from r a b c d show ?thesis by simp
qed

subsection \<open>C3: the order of the side effects\<close>

text \<open>
  Claim C3 as stated fails: when the project asks for a push and for a pull, the cycle
  pushes (\<open>tar.send\<close>) before it pulls (\<open>tar.get\<close>), so the transfers are not in the
  order that places pulls before pushes.
\<close>

theorem C3_counterexample:
  "filter is_transfer (new_events fs0 (snd (sync w_both fs0)))
     = [TarSend \<lparr> createArgs = [''-I'', ''lz4'', ''-c'', ''--null'', ''--no-recursion'',
                                ''--verbatim-files-from'', ''--files-from'',
                                ''/home/user/.compute-servers/1/copy-to-project''],
                  extractArgs = [''-I'', ''lz4'', ''--delay-directory-restore'', ''-x''],
                  HOME = None \<rparr>,
        TarGet \<lparr> createArgs = [''-I'', ''lz4'', ''-c'', ''--null'', ''--no-recursion'',
                               ''--verbatim-files-from'', ''--files-from'', ''manifest''],
                 extractArgs = [''-I'', ''lz4'', ''--delay-directory-restore'', ''-x''],
                 HOME = None \<rparr>]
   \<and> \<not> sorted (filter (\<lambda>n. 0 < n)
          (map (phase_pull_first (upper fs0)) (filter is_transfer (new_events fs0 (snd (sync w_both fs0))))))"
  by (simp add: sync_w_both)

text \<open>
  Claim C3, amended. In every sync cycle, however it ends, the transfers occur in this
  order: the removal of the whiteouts (in \<open>.unionfs-fuse\<close> of the upper layer), then the
  removal that the project asked for (\<open>removeFromCompute\<close>, in the upper layer), then
  the push to the project (\<open>copyFromCompute\<close>, \<open>tar.send\<close>), then the pulls from the
  project (\<open>copyFromProjectTar\<close> and the read-tracking files, \<open>tar.get\<close>).
\<close>

theorem C3_transfer_order:
  assumes "sync w s = (r, s')"
  shows "in_order (upper s) (new_events s s')"
proof (cases "state s = Ready")
  case True
  from sync_summary[OF True assms] obtain evs si tmo where
    s': "s' = s\<lparr>syncInterval := si, state := (if list_ex fusermount_call evs then Closed else Ready),
            timeout := tmo, numFails := (case r of Inl _ \<Rightarrow> numFails s + 1 | Inr _ \<Rightarrow> 0),
            trace := trace s @ evs\<rparr>"
    and ord: "in_order (upper s) evs"
    by (elim exE conjE)
  have "new_events s s' = evs" unfolding s' by (simp add: new_events_def)
  with ord show ?thesis by simp
next
  case False
  with sync_not_ready[OF False, of w] assms have "s' = s" by auto
  then show ?thesis by (simp add: new_events_def in_order_def)
qed

theorem C3_transfer_order_witness:
  "(\<exists>r s'. sync w_both fs0 = (r, s'))
   \<and> in_order (upper fs0) (new_events fs0 (snd (sync w_both fs0)))
   \<and> map (phase (upper fs0)) (filter is_transfer (new_events fs0 (snd (sync w_both fs0)))) = [3, 4]"
  using C3_transfer_order[of w_both fs0 "fst (sync w_both fs0)" "snd (sync w_both fs0)"]
  by (simp add: sync_w_both)
subsection \<open>C2: the circuit breaker\<close>











subsection \<open>C5: the adaptive interval\<close>

text \<open>
  Claim C5 as stated fails in three ways. The constructor checks neither bound: with
  \<open>syncIntervalMin = 60\<close> and the default maximum of 30 the interval starts at 60, above
  the maximum, and an idle tick then brings it to 30, below the minimum. A cycle that did
  work does not reset the interval when it throws afterwards: a push followed by a pull
  that fails leaves the interval to the loop, which makes it 15. And the wait is not
  always the minimum of the maximum and the interval plus the elapsed time: with \<open>"~"\<close>
  in the exclude list every tick waits 60 seconds, where the formula gives 10; and the
  tick of a tripped breaker whose status read rejects with \<open>undefined\<close> throws and sets
  no timer at all.
\<close>

theorem C5_counterexample:
  "new_SyncFS (opts0\<lparr>opt_syncIntervalMin := Some 60\<rparr>)
     = Inr (fs0\<lparr>syncInterval := 60, syncIntervalMin := 60\<rparr>)
   \<and> \<not> syncInterval (fs0\<lparr>syncInterval := 60, syncIntervalMin := 60\<rparr>)
         \<le> syncIntervalMax (fs0\<lparr>syncInterval := 60, syncIntervalMin := 60\<rparr>)
   \<and> syncInterval (snd (syncLoop w0 (fs0\<lparr>syncInterval := 60, syncIntervalMin := 60\<rparr>))) = 30
   \<and> \<not> syncIntervalMin (snd (syncLoop w0 (fs0\<lparr>syncInterval := 60, syncIntervalMin := 60\<rparr>)))
         \<le> syncInterval (snd (syncLoop w0 (fs0\<lparr>syncInterval := 60, syncIntervalMin := 60\<rparr>)))
   \<and> list_ex is_work (new_events fs0 (snd (syncLoop w_half fs0)))
   \<and> syncIntervalMin fs0 = 10
   \<and> syncInterval (snd (syncLoop w_half fs0)) = 15
   \<and> timeout (snd (syncLoop w0 (fs0\<lparr>exclude := [''~'']\<rparr>))) = Some 60000
   \<and> min (syncIntervalMax (fs0\<lparr>exclude := [''~'']\<rparr>) * 1000)
          (syncInterval (snd (syncLoop w0 (fs0\<lparr>exclude := [''~'']\<rparr>))) * 1000 + w_elapsed w0) = 10000
   \<and> syncLoop w_unread fs3
       = (Inl (Error (w_typeError w_unread 381)), fs3\<lparr>trace := [GetDetailedState 1]\<rparr>)
   \<and> timeout (fs3\<lparr>trace := [GetDetailedState 1]\<rparr>) = None"
proof -
  have a: "new_SyncFS (opts0\<lparr>opt_syncIntervalMin := Some 60\<rparr>)
     = Inr (fs0\<lparr>syncInterval := 60, syncIntervalMin := 60\<rparr>)"
    by (simp add: new_SyncFS_def opts0_def DEFAULT_SYNC_INTERVAL_MAX_S_def join_def
        show_nat.simps fs0_def)
  have b: "syncInterval (snd (syncLoop w0 (fs0\<lparr>syncInterval := 60, syncIntervalMin := 60\<rparr>))) = 30"
    "syncIntervalMin (snd (syncLoop w0 (fs0\<lparr>syncInterval := 60, syncIntervalMin := 60\<rparr>))) = 60"
    by (simp_all add: syncLoop_def syncLoop_attempt_def syncLoop_schedule_def
        MAX_FAILURES_IN_A_ROW_def run_defs w0_def fs0_def)
  have c: "timeout (snd (syncLoop w0 (fs0\<lparr>exclude := [''~'']\<rparr>))) = Some 60000"
    "syncInterval (snd (syncLoop w0 (fs0\<lparr>exclude := [''~'']\<rparr>))) = 10"
    by (simp_all add: syncLoop_disabled_apply fs0_def)
  have d: "syncLoop w_unread fs3
       = (Inl (Error (w_typeError w_unread 381)), fs3\<lparr>trace := [GetDetailedState 1]\<rparr>)"
    by (simp add: syncLoop_def syncLoop_attempt_def getDetailedState_def
        MAX_FAILURES_IN_A_ROW_def prog_apply interleave_close_def w_unread_def w0_def fs3_def
        fs0_def)
  have h: "list_ex is_work (new_events fs0 (snd (syncLoop w_half fs0)))"
    "syncInterval (snd (syncLoop w_half fs0)) = 15"
    by (simp_all add: syncLoop_def syncLoop_attempt_def syncLoop_schedule_def backoff_def
        MAX_FAILURES_IN_A_ROW_def run_defs logSyncError_def new_events_def w_half_def w_both_def
        w0_def fs0_def)
  have e: "syncIntervalMax (fs0\<lparr>exclude := [''~'']\<rparr>) = 30" "w_elapsed w0 = 0"
    "timeout (fs3\<lparr>trace := [GetDetailedState 1]\<rparr>) = None"
    "syncInterval (fs0\<lparr>syncInterval := 60, syncIntervalMin := 60\<rparr>) = 60"
    "syncIntervalMax (fs0\<lparr>syncInterval := 60, syncIntervalMin := 60\<rparr>) = 30"
    "syncIntervalMin fs0 = 10"
    by (simp_all add: fs3_def fs0_def w0_def)
  show ?thesis unfolding a b c d e using h by simp
qed

lemma loop_keeps_bounds:
  "syncIntervalMin (snd (syncLoop w s)) = syncIntervalMin s"
  "syncIntervalMax (snd (syncLoop w s)) = syncIntervalMax s"
  "interval_ok s \<Longrightarrow> interval_ok (snd (syncLoop w s))"
  "syncInterval (snd (syncLoop w s)) = syncInterval (snd (syncLoop_attempt w s))
     \<or> (''~'' \<in> set (exclude s) \<or> ''.'' \<in> set (exclude s))
        \<and> syncInterval (snd (syncLoop w s)) = syncInterval s"
proof -
  let ?t = "snd (syncLoop_attempt w s)"
  note att = attempt_interval[of w s "fst (syncLoop_attempt w s)" ?t, simplified]
  have *: "syncIntervalMin (snd (syncLoop w s)) = syncIntervalMin s
      \<and> syncIntervalMax (snd (syncLoop w s)) = syncIntervalMax s
      \<and> (interval_ok s \<longrightarrow> interval_ok (snd (syncLoop w s)))
      \<and> (syncInterval (snd (syncLoop w s)) = syncInterval ?t
          \<or> (''~'' \<in> set (exclude s) \<or> ''.'' \<in> set (exclude s))
             \<and> syncInterval (snd (syncLoop w s)) = syncInterval s)"
  proof (cases "''~'' \<in> set (exclude s) \<or> ''.'' \<in> set (exclude s)")
    case True
    show ?thesis unfolding syncLoop_disabled_apply[OF True] using True
      by (simp add: interval_ok_def)
  next
    case False
    then have en: "''~'' \<notin> set (exclude s)" "''.'' \<notin> set (exclude s)" by simp_all
    obtain r t where a: "syncLoop_attempt w s = (r, t)" by (cases "syncLoop_attempt w s")
    with att have t: "syncIntervalMin t = syncIntervalMin s" "syncIntervalMax t = syncIntervalMax s"
      "interval_ok s \<longrightarrow> interval_ok t" by simp_all
    show ?thesis unfolding syncLoop_enabled[OF en] a using t
      by (cases r) (simp_all add: schedule_apply interval_ok_def)
  qed
  from * show "syncIntervalMin (snd (syncLoop w s)) = syncIntervalMin s"
    "syncIntervalMax (snd (syncLoop w s)) = syncIntervalMax s"
    "interval_ok s \<Longrightarrow> interval_ok (snd (syncLoop w s))"
    "syncInterval (snd (syncLoop w s)) = syncInterval (snd (syncLoop_attempt w s))
     \<or> (''~'' \<in> set (exclude s) \<or> ''.'' \<in> set (exclude s))
        \<and> syncInterval (snd (syncLoop w s)) = syncInterval s"
    by simp_all
qed

lemma tick_interval:
  assumes en: "''~'' \<notin> set (exclude s)" "''.'' \<notin> set (exclude s)"
  shows "syncInterval (snd (syncLoop w s)) = syncInterval (snd (syncLoop_attempt w s))"
  using loop_keeps_bounds(4)[of w s] en by simp

lemma tick_wait:
  assumes en: "''~'' \<notin> set (exclude s)" "''.'' \<notin> set (exclude s)"
    and ret: "fst (syncLoop w s) = Inr ()"
  shows "timeout (snd (syncLoop w s))
     = Some (min (syncIntervalMax s * 1000) (syncInterval (snd (syncLoop w s)) * 1000 + w_elapsed w))"
proof -
  obtain r t where a: "syncLoop_attempt w s = (r, t)" by (cases "syncLoop_attempt w s")
  from attempt_interval[OF a] have m: "syncIntervalMax t = syncIntervalMax s" by simp
  from ret a show ?thesis unfolding syncLoop_enabled[OF en]
    by (cases r) (simp_all add: schedule_apply m)
qed

text \<open>What a cycle does to the interval, whoever calls \<open>sync\<close>.\<close>

lemma cycle_interval:
  "case sync w s of
     (Inr u, s1) \<Rightarrow> syncInterval s1
        = (if list_ex is_work (new_events s s1) then syncIntervalMin s
           else min (syncIntervalMax s) (1.3 * syncInterval s))
   | (Inl e, s1) \<Rightarrow> syncInterval s1 = syncInterval s"
proof -
  obtain r s1 where 1: "sync w s = (r, s1)" by (cases "sync w s")
  from sync_effect[OF 1] show ?thesis unfolding 1 by (cases r) simp_all
qed

lemma tick_normal_interval:
  assumes en: "''~'' \<notin> set (exclude s)" "''.'' \<notin> set (exclude s)"
    and r: "state s = Ready" and n: "numFails s < MAX_FAILURES_IN_A_ROW"
  shows "case sync w s of
           (Inr u, s1) \<Rightarrow> syncInterval (snd (syncLoop w s)) = syncInterval s1
         | (Inl e, s1) \<Rightarrow> syncInterval (snd (syncLoop w s))
                            = min (syncIntervalMax s) (1.5 * syncInterval s)"
proof -
  obtain r1 s1 where 1: "sync w s = (r1, s1)" by (cases "sync w s")
  note e = sync_effect[OF 1]
  show ?thesis unfolding tick_interval[OF en] attempt_normal[OF r n] 1 using e
    by (cases r1) simp_all
qed

lemma tick_tripped_interval:
  assumes en: "''~'' \<notin> set (exclude s)" "''.'' \<notin> set (exclude s)"
    and r: "state s = Ready" and n: "MAX_FAILURES_IN_A_ROW \<le> numFails s"
  shows "case w_getDetailedState w of
           Inl e \<Rightarrow> syncInterval (snd (syncLoop w s))
                      = (if nullish e then syncInterval s
                         else min (syncIntervalMax s) (1.5 * syncInterval s))
         | Inr d \<Rightarrow>
             if resumable d
             then (case sync w ((snd (getDetailedState w s))\<lparr>numFails := 0\<rparr>) of
                     (Inr u, s2) \<Rightarrow> syncInterval (snd (syncLoop w s))
                        = (if list_ex is_work
                                (new_events ((snd (getDetailedState w s))\<lparr>numFails := 0\<rparr>) s2)
                           then syncIntervalMin s
                           else min (syncIntervalMax s) (1.3 * syncInterval s))
                   | (Inl e, s2) \<Rightarrow> syncInterval (snd (syncLoop w s))
                        = min (syncIntervalMax s) (1.5 * syncInterval s))
             else syncInterval (snd (syncLoop w s)) = syncInterval s"
proof -
  let ?s1 = "snd (getDetailedState w s)"
  obtain c where c: "step s ?s1 (GetDetailedState (compute_server_id s) # c)"
    by (rule getDetailedState_run)
  have f: "syncInterval ?s1 = syncInterval s" "syncIntervalMin ?s1 = syncIntervalMin s"
    "syncIntervalMax ?s1 = syncIntervalMax s"
    using step_fields[OF c] by simp_all
  show ?thesis
  proof (cases "w_getDetailedState w")
    case (Inl e)
    then show ?thesis unfolding tick_interval[OF en] attempt_tripped[OF r n]
      by (simp add: backoff_apply f)
  next
    case (Inr d)
    show ?thesis
    proof (cases "resumable d")
      case False
      with Inr show ?thesis unfolding tick_interval[OF en] attempt_tripped[OF r n]
        by (simp add: f)
    next
      case True
      let ?s1' = "?s1\<lparr>numFails := 0\<rparr>"
      obtain r2 s2 where 2: "sync w ?s1' = (r2, s2)" by (cases "sync w ?s1'")
      note e = sync_effect[OF 2]
      from Inr True show ?thesis unfolding tick_interval[OF en] attempt_tripped[OF r n] 2
        using e f by (cases r2) (simp_all add: backoff_apply)
    qed
  qed
qed

text \<open>
  Claim C5, amended. Provided \<open>0 \<le> syncIntervalMin \<le> syncIntervalMax\<close>, the adaptive
  interval always stays within the two bounds: the constructor starts it at the minimum,
  and every tick of the loop and every call of \<open>sync\<close> keeps the bounds and keeps the
  interval within them. Whoever calls \<open>sync\<close>, a cycle that returns and did no work (no
  deletion, push or pull) multiplies the interval by 1.3, capped at the maximum; a cycle
  that returns and did work resets it to the minimum; a cycle that throws leaves it as it
  is, and when it is the loop that called the cycle (below the failure threshold, or
  resuming after the status was cleared) the loop then multiplies it by 1.5, capped at
  the maximum. The loop does the same when the read of the status throws a value other
  than \<open>undefined\<close> and \<open>null\<close>; a tick that makes no call leaves the interval as it is.
  Unless sync is disabled by \<open>"~"\<close> or \<open>"."\<close> in the exclude list, in which case every
  tick waits 60 seconds, a tick that returns sets the wait before the next tick to the
  minimum of the maximum and the interval plus the time the tick took (in
  milliseconds). A tick throws only when the breaker has tripped and the read of the
  status rejects with \<open>undefined\<close> or \<open>null\<close>.
\<close>

theorem C5_adaptive_interval:
  "(interval_ok s \<longrightarrow> interval_ok (snd (syncLoop w s)) \<and> interval_ok (snd (sync w s)))
   \<and> syncIntervalMin (snd (syncLoop w s)) = syncIntervalMin s
   \<and> syncIntervalMax (snd (syncLoop w s)) = syncIntervalMax s
   \<and> syncIntervalMin (snd (sync w s)) = syncIntervalMin s
   \<and> syncIntervalMax (snd (sync w s)) = syncIntervalMax s
   \<and> (\<forall>opts this. new_SyncFS opts = Inr this \<longrightarrow>
         syncInterval this = syncIntervalMin this
         \<and> (0 \<le> syncIntervalMin this \<and> syncIntervalMin this \<le> syncIntervalMax this
              \<longrightarrow> interval_ok this))
   \<and> (case sync w s of
         (Inr u, s1) \<Rightarrow> syncInterval s1
            = (if list_ex is_work (new_events s s1) then syncIntervalMin s
               else min (syncIntervalMax s) (1.3 * syncInterval s))
       | (Inl e, s1) \<Rightarrow> syncInterval s1 = syncInterval s)
   \<and> (''~'' \<notin> set (exclude s) \<and> ''.'' \<notin> set (exclude s) \<longrightarrow>
        (state s \<noteq> Ready \<longrightarrow> syncInterval (snd (syncLoop w s)) = syncInterval s)
        \<and> (state s = Ready \<and> numFails s < MAX_FAILURES_IN_A_ROW \<longrightarrow>
             (case sync w s of
                (Inr u, s1) \<Rightarrow> syncInterval (snd (syncLoop w s)) = syncInterval s1
              | (Inl e, s1) \<Rightarrow> syncInterval (snd (syncLoop w s))
                                 = min (syncIntervalMax s) (1.5 * syncInterval s)))
        \<and> (state s = Ready \<and> MAX_FAILURES_IN_A_ROW \<le> numFails s \<longrightarrow>
             (case w_getDetailedState w of
                Inl e \<Rightarrow> syncInterval (snd (syncLoop w s))
                           = (if nullish e then syncInterval s
                              else min (syncIntervalMax s) (1.5 * syncInterval s))
              | Inr d \<Rightarrow>
                  if resumable d
                  then (case sync w ((snd (getDetailedState w s))\<lparr>numFails := 0\<rparr>) of
                          (Inr u, s2) \<Rightarrow> syncInterval (snd (syncLoop w s))
                             = (if list_ex is_work
                                     (new_events ((snd (getDetailedState w s))\<lparr>numFails := 0\<rparr>) s2)
                                then syncIntervalMin s
                                else min (syncIntervalMax s) (1.3 * syncInterval s))
                        | (Inl e, s2) \<Rightarrow> syncInterval (snd (syncLoop w s))
                             = min (syncIntervalMax s) (1.5 * syncInterval s))
                  else syncInterval (snd (syncLoop w s)) = syncInterval s))
        \<and> (fst (syncLoop w s) = Inr () \<longrightarrow>
             timeout (snd (syncLoop w s))
               = Some (min (syncIntervalMax s * 1000)
                           (syncInterval (snd (syncLoop w s)) * 1000 + w_elapsed w))))
   \<and> (''~'' \<in> set (exclude s) \<or> ''.'' \<in> set (exclude s) \<longrightarrow>
        syncLoop w s = (Inr (), s\<lparr>timeout := Some (1000 * 60),
                                  trace := trace s @ [SetTimeout (1000 * 60)]\<rparr>))
   \<and> ((\<exists>e. fst (syncLoop w s) = Inl e) \<longleftrightarrow>
        ''~'' \<notin> set (exclude s) \<and> ''.'' \<notin> set (exclude s)
        \<and> state s = Ready \<and> MAX_FAILURES_IN_A_ROW \<le> numFails s
        \<and> (\<exists>e. w_getDetailedState w = Inl e \<and> nullish e))"
proof -
  have sy: "interval_ok (snd (sync w s))" if "interval_ok s"
    using interval_ok_sync[of w s "fst (sync w s)" "snd (sync w s)"] that by simp
  have sb: "syncIntervalMin (snd (sync w s)) = syncIntervalMin s"
    "syncIntervalMax (snd (sync w s)) = syncIntervalMax s"
    using sync_effect[of w s "fst (sync w s)" "snd (sync w s)"] by simp_all
  have new: "syncInterval this = syncIntervalMin this
           \<and> (0 \<le> syncIntervalMin this \<and> syncIntervalMin this \<le> syncIntervalMax this
                \<longrightarrow> interval_ok this)"
    if "new_SyncFS opts = Inr this" for opts this
    using that by (auto simp: new_SyncFS_def Let_def interval_ok_def split: if_splits)
  have idle: "syncInterval (snd (syncLoop w s)) = syncInterval s"
    if "''~'' \<notin> set (exclude s)" "''.'' \<notin> set (exclude s)" "state s \<noteq> Ready"
    using that tick_interval[OF that(1,2), of w] by (simp add: attempt_not_ready)
  show ?thesis
    apply (intro conjI impI allI)
                  apply (erule loop_keeps_bounds(3))
                 apply (erule sy)
                apply (rule loop_keeps_bounds(1))
               apply (rule loop_keeps_bounds(2))
              apply (rule sb(1))
             apply (rule sb(2))
            apply (rule new[THEN conjunct1], assumption)
           apply (rule new[THEN conjunct2, rule_format], assumption, assumption)
          apply (rule cycle_interval)
         apply (elim conjE, rule idle, assumption+)
        apply (elim conjE, rule tick_normal_interval, assumption+)
       apply (elim conjE, rule tick_tripped_interval, assumption+)
      apply (elim conjE, rule tick_wait, assumption+)
     apply (erule syncLoop_disabled_apply)
    apply (rule syncLoop_throws)
    done
qed

theorem C5_adaptive_interval_witness:
  "interval_ok fs0 \<and> ''~'' \<notin> set (exclude fs0) \<and> ''.'' \<notin> set (exclude fs0)
   \<and> state fs0 = Ready \<and> numFails fs0 < MAX_FAILURES_IN_A_ROW
   \<and> syncInterval (snd (syncLoop w0 fs0)) = 13
   \<and> syncInterval (snd (syncLoop w_both fs0)) = 10
   \<and> syncInterval (snd (syncLoop w_fail fs0)) = 15
   \<and> fst (syncLoop w0 fs0) = Inr ()
   \<and> timeout (snd (syncLoop w0 fs0)) = Some 13000
   \<and> interval_ok (snd (syncLoop w0 fs0))"
proof -
  have h: "interval_ok fs0" "''~'' \<notin> set (exclude fs0)" "''.'' \<notin> set (exclude fs0)"
    "state fs0 = Ready" "numFails fs0 < MAX_FAILURES_IN_A_ROW"
    by (simp_all add: interval_ok_def fs0_def MAX_FAILURES_IN_A_ROW_def)
  have i: "syncIntervalMin fs0 = 10" "syncIntervalMax fs0 = 30" "syncInterval fs0 = 10"
    by (simp_all add: fs0_def)
  have 0: "fst (sync w0 fs0) = Inr ()" "\<not> list_ex is_work (new_events fs0 (snd (sync w0 fs0)))"
    by (simp_all add: run_defs new_events_def w0_def fs0_def)
  have 1: "fst (sync w_both fs0) = Inr ()" "list_ex is_work (new_events fs0 (snd (sync w_both fs0)))"
    by (simp_all add: run_defs new_events_def w_both_def w0_def fs0_def)
  have 2: "fst (sync w_fail fs0) = Inl (Error ''Sync failed 1 times in a row with -- boom...'')"
    by (simp add: run_defs summary_def MAX_FAILURES_IN_A_ROW_def w_fail_def w0_def fs0_def)
  have e: "w_elapsed w0 = 0" by (simp add: w0_def)
  have a: "syncInterval (snd (syncLoop w0 fs0)) = 13"
    using C5_adaptive_interval[of fs0 w0] h 0 i by (simp add: split_beta)
  have b: "syncInterval (snd (syncLoop w_both fs0)) = 10"
    using C5_adaptive_interval[of fs0 w_both] h 1 i by (simp add: split_beta)
  have c: "syncInterval (snd (syncLoop w_fail fs0)) = 15"
    using C5_adaptive_interval[of fs0 w_fail] h 2 i by (simp add: split_beta)
  have r: "fst (syncLoop w0 fs0) = Inr ()"
    using C5_adaptive_interval[of fs0 w0] h by (cases "fst (syncLoop w0 fs0)") simp_all
  have d: "timeout (snd (syncLoop w0 fs0)) = Some 13000"
    "interval_ok (snd (syncLoop w0 fs0))"
    using C5_adaptive_interval[of fs0 w0] h a r i e by simp_all
  from h a b c r d show ?thesis by simp
qed

subsection \<open>C7: a cycle that only pulls\<close>

lemma whiteoutLoop_no_markers:
  assumes "\<forall>k\<in>set ks. \<not> endsWith k ''_HIDDEN~''"
  shows "whiteoutLoop w u mt ks acc = ret acc"
  using assms
proof (induction ks)
  case Nil
  then show ?case by simp
next
  case (Cons k ks)
  obtain cs wh where acc: "acc = (cs, wh)" by (cases acc)
  from Cons show ?case unfolding acc by (simp split: option.split)
qed

lemma getComputeState_no_whiteouts:
  assumes "w_mtimeDirTree w (upper s) (exclude s) = Inr cs"
    and "w_mtimeDirTree w (join [upper s, UNIONFS]) [] = Inr mt"
    and "\<forall>k\<in>set (map fst mt). \<not> endsWith k ''_HIDDEN~''"
  shows "fst (getComputeState w s) = Inr (cs, [])"
  using assms(1,2)
  by (simp add: getComputeState_def seq_apply with_this_apply call_apply ret_apply Let_def
      interleave_fields whiteoutLoop_no_markers[OF assms(3)])

lemma run_quiet:
  assumes "does P m" and "fst (m s) = Inr x"
  obtains s1 evs where "m s = (Inr x, s1)" "step s s1 evs" "list_all P evs"
proof -
  from assms(2) have 1: "m s = (Inr x, snd (m s))" by (cases "m s") simp
  from doesD[OF assms(1) 1] 1 that show thesis by blast
qed

text \<open>When every call up to the answer of \<open>api.syncFS\<close> succeeds and the scan finds no
  whiteout, the cycle reaches line 476 with no whiteouts, the answer, and no transfer
  made so far.\<close>

lemma doSync_reaches:
  assumes mk: "w_mkdir w (scratch s) = None" and api: "w_api w = None"
    and scan: "w_mtimeDirTree w (upper s) (exclude s) = Inr cs"
      "w_mtimeDirTree w (join [upper s, UNIONFS]) [] = Inr mt"
      "\<forall>k\<in>set (map fst mt). \<not> endsWith k ''_HIDDEN~''"
    and wr: "w_writeFile w (join [lower s, join [''.compute-servers'', show_nat (compute_server_id s),
                                                 ''compute-state.json.lz4'']]) = None"
    and resp: "w_syncFS w = Inr resp"
  obtains s1 evs where "step s s1 evs" "list_all (\<lambda>e. \<not> is_transfer e) evs"
    "doSync w s = doSync_apply w [] resp s1"
proof -
  let ?Q = "\<lambda>e. \<not> is_transfer e"
  let ?m1 = "reportState \<lparr> r_state = ''get-compute-state'', r_extra = None,
                        r_timeout = Some 10, r_progress = Some 0 \<rparr>"
  let ?m3 = "with_this (\<lambda>this. call w 450 (ProjectApi (project_id this)) (outcome (w_api w)))"
  let ?m5 = "with_this (\<lambda>this.
               call w 458
                 (WriteFile (join [lower this, join [''.compute-servers'', show_nat (compute_server_id this),
                                                     ''compute-state.json.lz4'']])
                    (CompressedJSON cs))
                 (fs_outcome (w_writeFile w
                    (join [lower this, join [''.compute-servers'', show_nat (compute_server_id this),
                                             ''compute-state.json.lz4'']]))))"
  let ?m6 = "reportState \<lparr> r_state = ''send-state-to-project'', r_extra = None,
                                 r_timeout = Some 10, r_progress = Some 20 \<rparr>"
  let ?m7 = "with_this (\<lambda>this.
                     call w 468
                       (SyncFSRequest (join [''.compute-servers'', show_nat (compute_server_id this),
                                             ''compute-state.json.lz4''])
                          (exclude this) (compute_server_id this))
                       (w_syncFS w))"
  have d3: "does ?Q ?m3" by (intro does_leaf) (simp_all add: close_kind_quiet)
  have d5: "does ?Q ?m5" by (intro does_leaf) (simp_all add: close_kind_quiet)
  have d7: "does ?Q ?m7" by (intro does_leaf) (simp_all add: close_kind_quiet)
  have "fst (?m1 s) = Inr ()" by (simp add: reportState_apply)
  from run_quiet[OF does_quiet_reportState this]
  obtain a1 e1 where 1: "?m1 s = (Inr (), a1)" "step s a1 e1" "list_all ?Q e1" by blast
  note f1 = step_fields[OF 1(2)]
  have "fst (makeScratchDir w a1) = Inr ()"
    using mk f1 by (simp add: makeScratchDir_def with_this_apply call_apply)
  from run_quiet[OF does_makeScratchDir this]
  obtain a2 e2 where 2: "makeScratchDir w a1 = (Inr (), a2)" "step a1 a2 e2" "list_all ?Q e2"
    by blast
  note f2 = step_fields[OF 2(2)]
  have "fst (?m3 a2) = Inr ()"
    using api by (simp add: with_this_apply call_apply)
  from run_quiet[OF d3 this]
  obtain a3 e3 where 3: "?m3 a2 = (Inr (), a3)" "step a2 a3 e3" "list_all ?Q e3" by blast
  note f3 = step_fields[OF 3(2)]
  have up3: "upper a3 = upper s" "exclude a3 = exclude s" using f1 f2 f3 by simp_all
  have "fst (getComputeState w a3) = Inr (cs, [])"
    by (rule getComputeState_no_whiteouts[where mt = mt]) (simp_all add: up3 scan)
  from run_quiet[OF does_getComputeState this]
  obtain a4 e4 where 4: "getComputeState w a3 = (Inr (cs, []), a4)" "step a3 a4 e4" "list_all ?Q e4"
    by blast
  note f4 = step_fields[OF 4(2)]
  have lo4: "lower a4 = lower s" "compute_server_id a4 = compute_server_id s"
    using f1 f2 f3 f4 by simp_all
  have "fst (?m5 a4) = Inr ()"
    using wr by (simp add: with_this_apply call_apply lo4)
  from run_quiet[OF d5 this]
  obtain a5 e5 where 5: "?m5 a4 = (Inr (), a5)" "step a4 a5 e5" "list_all ?Q e5" by blast
  have "fst (?m6 a5) = Inr ()" by (simp add: reportState_apply)
  from run_quiet[OF does_quiet_reportState this]
  obtain a6 e6 where 6: "?m6 a5 = (Inr (), a6)" "step a5 a6 e6" "list_all ?Q e6" by blast
  have "fst (?m7 a6) = Inr resp"
    using resp by (simp add: with_this_apply call_apply)
  from run_quiet[OF d7 this]
  obtain a7 e7 where 7: "?m7 a6 = (Inr resp, a7)" "step a6 a7 e7" "list_all ?Q e7" by blast
  have st: "step s a7 (e1 @ e2 @ e3 @ e4 @ e5 @ e6 @ e7)"
    using step_trans[OF 1(2) step_trans[OF 2(2) step_trans[OF 3(2) step_trans[OF 4(2)
            step_trans[OF 5(2) step_trans[OF 6(2) 7(2)]]]]]] .
  have q: "list_all ?Q (e1 @ e2 @ e3 @ e4 @ e5 @ e6 @ e7)"
    using 1(3) 2(3) 3(3) 4(3) 5(3) 6(3) 7(3) by simp
  have "doSync w s = doSync_apply w [] resp a7"
    unfolding doSync_def
    by (simp only: seq_apply 1(1) 2(1) 3(1) 4(1) 5(1) 6(1) 7(1) prod.case sum.case)
  with st q that show thesis by blast
qed

lemma pull_args:
  "pulls_manifest path (TarGet (this_tar t
      \<lparr> createArgs = [''-c'', ''--null'', ''--no-recursion'', ''--verbatim-files-from'',
                       ''--files-from'', path],
        extractArgs = [''--delay-directory-restore'', ''-x''], HOME = None \<rparr>))"
  by (cases t) (simp_all add: alter_def)

lemma no_work_no_pull: "\<not> is_work e \<Longrightarrow> \<not> pulls_manifest path e"
  by (cases e) simp_all

lemma quiet_no_pull: "\<not> is_transfer e \<Longrightarrow> \<not> pulls_manifest path e"
  by (cases e) simp_all

lemma quiet_kinds:
  assumes "\<not> is_transfer e"
  shows "\<not> is_remove e" "\<not> is_tar_send e" "\<not> is_tar_get e" "\<not> is_work e"
  using assms by (cases e; simp)+

text \<open>The rest of the cycle when only a manifest is to be pulled: the report, the
  \<open>tar.get\<close> of the manifest, and then at most the update of the read tracking.\<close>

lemma doSync_apply_pull:
  assumes rm: "removeFromCompute resp = None \<or> removeFromCompute resp = Some []"
    and cp: "copyFromCompute resp = None \<or> copyFromCompute resp = Some []"
    and tar: "copyFromProjectTar resp = Some path" "path \<noteq> []"
    and run: "doSync_apply w [] resp s = (r, s')"
  obtains c rest where
    "new_events s s' =
       SetDetailedState (compute_server_id s)
         \<lparr> r_state = ''receive-files-from-project'', r_extra = None,
           r_timeout = None, r_progress = Some 70 \<rparr>
       # TarGet (this_tar (tar s)
           \<lparr> createArgs = [''-c'', ''--null'', ''--no-recursion'', ''--verbatim-files-from'',
                            ''--files-from'', path],
             extractArgs = [''--delay-directory-restore'', ''-x''], HOME = None \<rparr>)
       # c @ rest"
    "list_all close_kind c"
    "list_all (\<lambda>e. \<not> is_remove e \<and> \<not> is_tar_send e \<and> \<not> is_work e) rest"
    "readTrackingFile s = None \<longrightarrow> rest = []"
proof -
  let ?d = "\<lparr> r_state = ''receive-files-from-project'', r_extra = None,
              r_timeout = None, r_progress = Some 70 \<rparr>"
  let ?a = "this_tar (tar s)
           \<lparr> createArgs = [''-c'', ''--null'', ''--no-recursion'', ''--verbatim-files-from'',
                            ''--files-from'', path],
             extractArgs = [''--delay-directory-restore'', ''-x''], HOME = None \<rparr>"
  let ?a1 = "trace_update (\<lambda>t. t @ [SetDetailedState (compute_server_id s) ?d]) s"
  let ?tail = "seq (modify (\<lambda>this. this\<lparr>syncInterval := syncIntervalMin this\<rparr>))
                 (\<lambda>_. updateReadTracking w)"
  have skip: "(case removeFromCompute resp of None \<Rightarrow> ret False
               | Some files \<Rightarrow> if length files \<noteq> 0 then m1 files else ret False) = ret False"
    "(case copyFromCompute resp of None \<Rightarrow> ret False
               | Some files \<Rightarrow> if length files \<noteq> 0 then m2 files else ret False) = ret False"
    for m1 m2 :: "string list \<Rightarrow> bool prog"
    using rm cp by auto
  have unfold: "doSync_apply w [] resp s =
      (case receiveFiles w path ?a1 of
         (Inl e, a2) \<Rightarrow> (Inl e, a2)
       | (Inr u, a2) \<Rightarrow> updateReadTracking w (a2\<lparr>syncInterval := syncIntervalMin a2\<rparr>))"
    unfolding doSync_apply_def
    by (simp add: skip tar seq_apply ret_apply reportState_apply modify_apply
        split: prod.split sum.split)
  obtain rg a2 where g: "receiveFiles w path ?a1 = (rg, a2)" by (cases "receiveFiles w path ?a1")
  then have "call w 591 (TarGet ?a) (outcome (w_tar_get w ?a)) ?a1 = (rg, a2)"
    by (simp add: receiveFiles_def tar_get_def with_this_apply)
  then obtain c where c: "step ?a1 a2 (TarGet ?a # c)" "list_all close_kind c"
    by (rule call_run) simp
  have tr2: "trace a2 = trace s @ SetDetailedState (compute_server_id s) ?d # TarGet ?a # c"
    using step_fields(17)[OF c(1)] by simp
  show thesis
  proof (cases rg)
    case (Inl e)
    with unfold g run have "s' = a2" by simp
    with tr2 have "new_events s s' = SetDetailedState (compute_server_id s) ?d # TarGet ?a # c @ []"
      by (simp add: new_events_def)
    then show thesis by (rule that[of c "[]"]) (use c(2) in simp_all)
  next
    case (Inr u)
    let ?a3 = "a2\<lparr>syncInterval := syncIntervalMin a2\<rparr>"
    from Inr unfold g run have u: "updateReadTracking w ?a3 = (r, s')" by simp
    from doesD[OF does_updateReadTracking u] obtain rest where
      rest: "step ?a3 s' rest" "list_all (\<lambda>e. \<not> is_remove e \<and> \<not> is_tar_send e \<and> \<not> is_work e) rest"
      by blast
    have "trace s' = trace a2 @ rest" using step_fields(17)[OF rest(1)] by simp
    with tr2 have ne: "new_events s s'
        = SetDetailedState (compute_server_id s) ?d # TarGet ?a # c @ rest"
      by (simp add: new_events_def)
    have "rest = []" if "readTrackingFile s = None"
    proof -
      have "readTrackingFile ?a3 = None" using step_fields(11)[OF c(1)] that by simp
      then have "updateReadTracking w ?a3 = (Inr (), ?a3)"
        by (simp add: updateReadTracking_def with_this_apply ret_apply)
      with u have "s' = ?a3" by simp
      with step_fields(17)[OF rest(1)] show ?thesis by simp
    qed
    with ne c(2) rest(2) show thesis by (intro that[of c rest]) simp_all
  qed
qed

text \<open>What \<open>sync\<close> adds to the transfers of the cycle it runs: nothing.\<close>

lemma finally_trace:
  "trace (snd (sync_finally t)) = trace t @ (if state t \<noteq> Closed
       then [SetDetailedState (compute_server_id t)
               \<lparr> r_state = ''ready'', r_extra = None,
                 r_timeout = Some (3 + syncInterval t), r_progress = Some 100 \<rparr>]
       else [])"
  by (simp add: sync_finally_apply)

lemma catch_trace:
  "\<exists>c. trace (snd (sync_catch w err t)) = trace t @ c \<and> list_all (\<lambda>e. \<not> is_transfer e) c"
proof (cases err)
  case (Thrown v)
  show ?thesis unfolding Thrown sync_catch_Thrown by (rule exI[of _ "[]"]) simp
next
  case (Error m)
  let ?rep = "SetDetailedState (compute_server_id t)
                \<lparr> r_state = ''error'', r_extra = Some (summary (numFails t + 1) m),
                  r_timeout = Some 60, r_progress = Some 0 \<rparr>"
  let ?wr = "WriteFile (error_txt t) (Text (summary (numFails t + 1) m))"
  let ?u = "t\<lparr>numFails := numFails t + 1, trace := trace t @ [?rep, ?wr]\<rparr>"
  from step_interleave[of ?u w 410] obtain c where c: "step ?u (interleave_close w 410 ?u) c"
    and ck: "list_all close_kind c" by (elim exE conjE)
  have "trace (interleave_close w 410 ?u) = trace t @ [?rep, ?wr] @ c"
    using step_fields(17)[OF c] by simp
  moreover have "list_all (\<lambda>e. \<not> is_transfer e) ([?rep, ?wr] @ c)"
    using ck by (auto simp: list_all_iff close_kind_quiet)
  ultimately show ?thesis unfolding Error sync_catch_apply snd_conv by blast
qed

lemma sync_transfers:
  assumes "state s = Ready"
  shows "\<exists>c. new_events s (snd (sync w s))
            = new_events (s\<lparr>state := Sync\<rparr>) (snd (doSync w (s\<lparr>state := Sync\<rparr>))) @ c
          \<and> list_all (\<lambda>e. \<not> is_transfer e) c"
proof -
  let ?s0 = "s\<lparr>state := Sync\<rparr>"
  obtain r1 s1 where 1: "doSync w ?s0 = (r1, s1)" by (cases "doSync w ?s0")
  from cycle_tailD[OF cycle_tail_doSync 1] obtain e1 where "wstep ?s0 s1 e1" by blast
  from wstep_fields(16,17)[OF this] have t1: "trace s1 = trace s @ e1"
    and ne1: "new_events ?s0 s1 = e1" by simp_all
  show ?thesis
  proof (cases r1)
    case (Inr u)
    let ?fin = "if state s1 \<noteq> Closed
       then [SetDetailedState (compute_server_id s1)
               \<lparr> r_state = ''ready'', r_extra = None,
                 r_timeout = Some (3 + syncInterval s1), r_progress = Some 100 \<rparr>]
       else []"
    from assms 1 Inr have "snd (sync w s) = snd (sync_finally (s1\<lparr>numFails := 0\<rparr>))"
      by (simp add: sync_ready)
    then have "trace (snd (sync w s)) = trace s @ e1 @ ?fin"
      by (simp add: finally_trace t1)
    then have "new_events s (snd (sync w s)) = e1 @ ?fin" by (simp add: new_events_def)
    moreover have "list_all (\<lambda>e. \<not> is_transfer e) ?fin" by simp
    ultimately show ?thesis unfolding 1 snd_conv ne1 by blast
  next
    case (Inl err)
    let ?t = "snd (sync_catch w err s1)"
    let ?fin = "if state ?t \<noteq> Closed
       then [SetDetailedState (compute_server_id ?t)
               \<lparr> r_state = ''ready'', r_extra = None,
                 r_timeout = Some (3 + syncInterval ?t), r_progress = Some 100 \<rparr>]
       else []"
    from catch_trace[of w err s1] obtain c where c: "trace ?t = trace s1 @ c"
      and q: "list_all (\<lambda>e. \<not> is_transfer e) c" by blast
    from assms 1 Inl have "snd (sync w s) = snd (sync_finally ?t)"
      by (simp add: sync_ready)
    then have "trace (snd (sync w s)) = trace s @ e1 @ c @ ?fin"
      by (simp add: finally_trace t1 c)
    then have "new_events s (snd (sync w s)) = e1 @ (c @ ?fin)" by (simp add: new_events_def)
    moreover have "list_all (\<lambda>e. \<not> is_transfer e) (c @ ?fin)" using q by simp
    ultimately show ?thesis unfolding 1 snd_conv ne1 by blast
  qed
qed

lemma filter_quiet:
  assumes "list_all (\<lambda>e. \<not> is_transfer e) c" and "\<And>e. P e \<Longrightarrow> is_transfer e"
  shows "filter P (a @ c) = filter P a"
  using assms by (auto simp: list_all_iff filter_empty_conv)

lemma transfer_kinds:
  "pulls_manifest path e \<Longrightarrow> is_transfer e" "is_remove e \<Longrightarrow> is_transfer e"
  "is_tar_send e \<Longrightarrow> is_transfer e" "is_tar_get e \<Longrightarrow> is_transfer e"
  "is_work e \<Longrightarrow> is_transfer e"
  by (cases e; simp)+

lemma pull_only_cycle:
  assumes mk: "w_mkdir w (scratch s) = None" and api: "w_api w = None"
    and scan: "w_mtimeDirTree w (upper s) (exclude s) = Inr cs"
      "w_mtimeDirTree w (join [upper s, UNIONFS]) [] = Inr mt"
      "\<forall>k\<in>set (map fst mt). \<not> endsWith k ''_HIDDEN~''"
    and wr: "w_writeFile w (join [lower s, join [''.compute-servers'', show_nat (compute_server_id s),
                                                 ''compute-state.json.lz4'']]) = None"
    and resp: "w_syncFS w = Inr resp"
    and rm: "removeFromCompute resp = None \<or> removeFromCompute resp = Some []"
    and cp: "copyFromCompute resp = None \<or> copyFromCompute resp = Some []"
    and tar: "copyFromProjectTar resp = Some path" "path \<noteq> []"
  shows "length (filter (pulls_manifest path) (new_events s (snd (doSync w s)))) = 1
     \<and> \<not> list_ex is_remove (new_events s (snd (doSync w s)))
     \<and> \<not> list_ex is_tar_send (new_events s (snd (doSync w s)))
     \<and> filter is_work (new_events s (snd (doSync w s)))
         = [TarGet (this_tar (tar s)
              \<lparr> createArgs = [''-c'', ''--null'', ''--no-recursion'', ''--verbatim-files-from'',
                               ''--files-from'', path],
                extractArgs = [''--delay-directory-restore'', ''-x''], HOME = None \<rparr>)]
     \<and> (readTrackingFile s = None \<longrightarrow>
          length (filter is_tar_get (new_events s (snd (doSync w s)))) = 1)"
proof -
  let ?a = "this_tar (tar s)
           \<lparr> createArgs = [''-c'', ''--null'', ''--no-recursion'', ''--verbatim-files-from'',
                            ''--files-from'', path],
             extractArgs = [''--delay-directory-restore'', ''-x''], HOME = None \<rparr>"
  let ?set = "SetDetailedState (compute_server_id s)
         \<lparr> r_state = ''receive-files-from-project'', r_extra = None,
           r_timeout = None, r_progress = Some 70 \<rparr>"
  obtain s1 pre where pre: "step s s1 pre" "list_all (\<lambda>e. \<not> is_transfer e) pre"
    and eq: "doSync w s = doSync_apply w [] resp s1"
    by (rule doSync_reaches[OF mk api scan wr resp])
  note f = step_fields[OF pre(1)]
  obtain r s' where run: "doSync_apply w [] resp s1 = (r, s')"
    by (cases "doSync_apply w [] resp s1")
  from doSync_apply_pull[OF rm cp tar run] obtain c rest where
    ne: "new_events s1 s' = SetDetailedState (compute_server_id s1)
         \<lparr> r_state = ''receive-files-from-project'', r_extra = None,
           r_timeout = None, r_progress = Some 70 \<rparr>
       # TarGet (this_tar (tar s1)
           \<lparr> createArgs = [''-c'', ''--null'', ''--no-recursion'', ''--verbatim-files-from'',
                            ''--files-from'', path],
             extractArgs = [''--delay-directory-restore'', ''-x''], HOME = None \<rparr>)
       # c @ rest"
    and c: "list_all close_kind c"
    and rest: "list_all (\<lambda>e. \<not> is_remove e \<and> \<not> is_tar_send e \<and> \<not> is_work e) rest"
    and none: "readTrackingFile s1 = None \<longrightarrow> rest = []"
    by blast
  from cycle_tailD[OF cycle_tail_doSync_apply run] obtain evs where "wstep s1 s' evs" by blast
  from wstep_fields[OF this] have "trace s' = trace s1 @ new_events s1 s'" by simp
  then have all: "new_events s (snd (doSync w s)) = pre @ ?set # TarGet ?a # c @ rest"
    unfolding eq run using f ne by (simp add: new_events_def)
  have P: "filter (pulls_manifest path) pre = []" "filter (pulls_manifest path) c = []"
    "filter (pulls_manifest path) rest = []"
    using pre(2) c rest
    by (auto simp: list_all_iff filter_empty_conv close_kind_quiet no_work_no_pull quiet_no_pull)
  have c1: "length (filter (pulls_manifest path) (new_events s (snd (doSync w s)))) = 1"
    unfolding all using P pull_args[of path "tar s"] by simp
  have R: "\<not> list_ex is_remove pre" "\<not> list_ex is_remove c" "\<not> list_ex is_remove rest"
    "\<not> list_ex is_tar_send pre" "\<not> list_ex is_tar_send c" "\<not> list_ex is_tar_send rest"
    using pre(2) c rest
    by (auto simp: list_all_iff list_ex_iff close_kind_quiet quiet_kinds)
  have c2: "\<not> list_ex is_remove (new_events s (snd (doSync w s)))"
    "\<not> list_ex is_tar_send (new_events s (snd (doSync w s)))"
    unfolding all using R by simp_all
  have W: "filter is_work pre = []" "filter is_work c = []" "filter is_work rest = []"
    using pre(2) c rest
    by (auto simp: list_all_iff filter_empty_conv close_kind_quiet quiet_kinds)
  have wa: "is_work (TarGet ?a)" by (cases "tar s") (simp_all add: alter_def)
  have c3: "filter is_work (new_events s (snd (doSync w s))) = [TarGet ?a]"
    unfolding all using W wa by simp
  have c4: "length (filter is_tar_get (new_events s (snd (doSync w s)))) = 1"
    if "readTrackingFile s = None"
  proof -
    from that none f have "rest = []" by simp
    moreover have "filter is_tar_get pre = []" "filter is_tar_get c = []"
      using pre(2) c
      by (auto simp: list_all_iff filter_empty_conv close_kind_quiet quiet_kinds)
    ultimately show ?thesis unfolding all by simp
  qed
  from c1 c2 c3 c4 show ?thesis by simp
qed

text \<open>
  Claim C7. Let every call of a cycle up to the answer of \<open>api.syncFS\<close> succeed, let the
  scan of the directory \<open>.unionfs-fuse\<close> find no whiteout, and let the answer hold a
  non-empty \<open>copyFromProjectTar\<close> (the path of a manifest) and no files in
  \<open>removeFromCompute\<close> and \<open>copyFromCompute\<close>. Then the cycle makes exactly one call of
  \<open>tar.get\<close> whose create arguments have \<open>--files-from\<close> followed by that path, as well
  as \<open>--null\<close>, \<open>--no-recursion\<close> and \<open>--verbatim-files-from\<close>, and whose extract
  arguments have \<open>--delay-directory-restore\<close>; it makes no removal and no \<open>tar.send\<close>.
  That call is the only work of the cycle, and when no read tracking file is configured
  it is the only \<open>tar.get\<close> at all. The same holds of the whole call of \<open>sync\<close> that
  runs the cycle on a ready object.
\<close>

theorem C7_pull_only:
  assumes mk: "w_mkdir w (scratch s) = None" and api: "w_api w = None"
    and scan: "w_mtimeDirTree w (upper s) (exclude s) = Inr cs"
      "w_mtimeDirTree w (join [upper s, UNIONFS]) [] = Inr mt"
      "\<forall>k\<in>set (map fst mt). \<not> endsWith k ''_HIDDEN~''"
    and wr: "w_writeFile w (join [lower s, join [''.compute-servers'', show_nat (compute_server_id s),
                                                 ''compute-state.json.lz4'']]) = None"
    and resp: "w_syncFS w = Inr resp"
    and rm: "removeFromCompute resp = None \<or> removeFromCompute resp = Some []"
    and cp: "copyFromCompute resp = None \<or> copyFromCompute resp = Some []"
    and tar: "copyFromProjectTar resp = Some path" "path \<noteq> []"
  shows "length (filter (pulls_manifest path) (new_events s (snd (doSync w s)))) = 1
     \<and> \<not> list_ex is_remove (new_events s (snd (doSync w s)))
     \<and> \<not> list_ex is_tar_send (new_events s (snd (doSync w s)))
     \<and> filter is_work (new_events s (snd (doSync w s)))
         = [TarGet (this_tar (tar s)
              \<lparr> createArgs = [''-c'', ''--null'', ''--no-recursion'', ''--verbatim-files-from'',
                               ''--files-from'', path],
                extractArgs = [''--delay-directory-restore'', ''-x''], HOME = None \<rparr>)]
     \<and> (readTrackingFile s = None \<longrightarrow>
          length (filter is_tar_get (new_events s (snd (doSync w s)))) = 1)
     \<and> (state s = Ready \<longrightarrow>
          length (filter (pulls_manifest path) (new_events s (snd (sync w s)))) = 1
          \<and> \<not> list_ex is_remove (new_events s (snd (sync w s)))
          \<and> \<not> list_ex is_tar_send (new_events s (snd (sync w s)))
          \<and> filter is_work (new_events s (snd (sync w s)))
              = [TarGet (this_tar (tar s)
                   \<lparr> createArgs = [''-c'', ''--null'', ''--no-recursion'', ''--verbatim-files-from'',
                                    ''--files-from'', path],
                     extractArgs = [''--delay-directory-restore'', ''-x''], HOME = None \<rparr>)]
          \<and> (readTrackingFile s = None \<longrightarrow>
               length (filter is_tar_get (new_events s (snd (sync w s)))) = 1))"
proof -
  note body = pull_only_cycle[OF mk api scan wr resp rm cp tar]
  have called: "length (filter (pulls_manifest path) (new_events s (snd (sync w s)))) = 1
          \<and> \<not> list_ex is_remove (new_events s (snd (sync w s)))
          \<and> \<not> list_ex is_tar_send (new_events s (snd (sync w s)))
          \<and> filter is_work (new_events s (snd (sync w s)))
              = [TarGet (this_tar (tar s)
                   \<lparr> createArgs = [''-c'', ''--null'', ''--no-recursion'', ''--verbatim-files-from'',
                                    ''--files-from'', path],
                     extractArgs = [''--delay-directory-restore'', ''-x''], HOME = None \<rparr>)]
          \<and> (readTrackingFile s = None \<longrightarrow>
               length (filter is_tar_get (new_events s (snd (sync w s)))) = 1)"
    if ready: "state s = Ready"
  proof -
    let ?s0 = "s\<lparr>state := Sync\<rparr>"
    let ?d = "new_events ?s0 (snd (doSync w ?s0))"
    have inner: "length (filter (pulls_manifest path) ?d) = 1
       \<and> \<not> list_ex is_remove ?d \<and> \<not> list_ex is_tar_send ?d
       \<and> filter is_work ?d
           = [TarGet (this_tar (tar s)
                \<lparr> createArgs = [''-c'', ''--null'', ''--no-recursion'', ''--verbatim-files-from'',
                                 ''--files-from'', path],
                  extractArgs = [''--delay-directory-restore'', ''-x''], HOME = None \<rparr>)]
       \<and> (readTrackingFile s = None \<longrightarrow> length (filter is_tar_get ?d) = 1)"
      using pull_only_cycle[of w ?s0 cs mt resp path] mk api scan wr resp rm cp tar by simp
    from sync_transfers[OF ready, of w] obtain c where
      ev: "new_events s (snd (sync w s)) = ?d @ c" and q: "list_all (\<lambda>e. \<not> is_transfer e) c"
      by blast
    have f: "filter (pulls_manifest path) (?d @ c) = filter (pulls_manifest path) ?d"
      "filter is_remove (?d @ c) = filter is_remove ?d"
      "filter is_tar_send (?d @ c) = filter is_tar_send ?d"
      "filter is_work (?d @ c) = filter is_work ?d"
      "filter is_tar_get (?d @ c) = filter is_tar_get ?d"
      by (rule filter_quiet[OF q], erule transfer_kinds)+
    have ex: "list_ex P xs \<longleftrightarrow> filter P xs \<noteq> []" for P :: "event \<Rightarrow> bool" and xs
      by (simp add: list_ex_iff filter_empty_conv)
    from inner show ?thesis unfolding ev ex f by simp
  qed
  from body called show ?thesis by simp
qed

theorem C7_pull_only_witness:
  "w_mkdir w_pull (scratch fs0) = None \<and> w_api w_pull = None
   \<and> w_mtimeDirTree w_pull (upper fs0) (exclude fs0) = Inr [(''foo.txt'', 100)]
   \<and> w_mtimeDirTree w_pull (join [upper fs0, UNIONFS]) [] = Inr []
   \<and> w_syncFS w_pull = Inr \<lparr> removeFromCompute = Some [], copyFromCompute = Some [],
                              copyFromProjectTar = Some ''manifest'' \<rparr>
   \<and> length (filter (pulls_manifest ''manifest'') (new_events fs0 (snd (doSync w_pull fs0)))) = 1
   \<and> \<not> list_ex is_remove (new_events fs0 (snd (doSync w_pull fs0)))
   \<and> \<not> list_ex is_tar_send (new_events fs0 (snd (doSync w_pull fs0)))
   \<and> filter is_work (new_events fs0 (snd (doSync w_pull fs0)))
       = [TarGet \<lparr> createArgs = [''-I'', ''lz4'', ''-c'', ''--null'', ''--no-recursion'',
                                 ''--verbatim-files-from'', ''--files-from'', ''manifest''],
                   extractArgs = [''-I'', ''lz4'', ''--delay-directory-restore'', ''-x''],
                   HOME = None \<rparr>]
   \<and> length (filter is_tar_get (new_events fs0 (snd (doSync w_pull fs0)))) = 1
   \<and> state fs0 = Ready
   \<and> length (filter (pulls_manifest ''manifest'') (new_events fs0 (snd (sync w_pull fs0)))) = 1
   \<and> \<not> list_ex is_remove (new_events fs0 (snd (sync w_pull fs0)))
   \<and> \<not> list_ex is_tar_send (new_events fs0 (snd (sync w_pull fs0)))"
proof -
  have h: "w_mkdir w_pull (scratch fs0) = None" "w_api w_pull = None"
    "w_mtimeDirTree w_pull (upper fs0) (exclude fs0) = Inr [(''foo.txt'', 100)]"
    "w_mtimeDirTree w_pull (join [upper fs0, UNIONFS]) [] = Inr []"
    "\<forall>k\<in>set (map fst ([] :: FilesystemState)). \<not> endsWith k ''_HIDDEN~''"
    "w_writeFile w_pull (join [lower fs0, join [''.compute-servers'', show_nat (compute_server_id fs0),
                                                 ''compute-state.json.lz4'']]) = None"
    "w_syncFS w_pull = Inr \<lparr> removeFromCompute = Some [], copyFromCompute = Some [],
                              copyFromProjectTar = Some ''manifest'' \<rparr>"
    by (simp_all add: w_pull_def w0_def fs0_def join_def UNIONFS_def)
  have t: "tar fs0 = Lz4" "readTrackingFile fs0 = None" "state fs0 = Ready"
    by (simp_all add: fs0_def)
  have hr: "removeFromCompute \<lparr> removeFromCompute = Some [], copyFromCompute = Some [],
                                  copyFromProjectTar = Some ''manifest'' \<rparr> = None
        \<or> removeFromCompute \<lparr> removeFromCompute = Some [], copyFromCompute = Some [],
                                copyFromProjectTar = Some ''manifest'' \<rparr> = Some []"
    "copyFromCompute \<lparr> removeFromCompute = Some [], copyFromCompute = Some [],
                        copyFromProjectTar = Some ''manifest'' \<rparr> = None
        \<or> copyFromCompute \<lparr> removeFromCompute = Some [], copyFromCompute = Some [],
                              copyFromProjectTar = Some ''manifest'' \<rparr> = Some []"
    "copyFromProjectTar \<lparr> removeFromCompute = Some [], copyFromCompute = Some [],
                           copyFromProjectTar = Some ''manifest'' \<rparr> = Some ''manifest''"
    "''manifest'' \<noteq> []"
    by simp_all
  note c = C7_pull_only[OF h hr]
  from c[THEN conjunct1] c[THEN conjunct2, THEN conjunct1]
    c[THEN conjunct2, THEN conjunct2, THEN conjunct1]
    c[THEN conjunct2, THEN conjunct2, THEN conjunct2, THEN conjunct1]
    c[THEN conjunct2, THEN conjunct2, THEN conjunct2, THEN conjunct2, THEN conjunct1]
    c[THEN conjunct2, THEN conjunct2, THEN conjunct2, THEN conjunct2, THEN conjunct2,
      rule_format, OF t(3)]
    t h(1,2,3,4,7) show ?thesis
    by (simp add: alter_def)
qed

end
